theory Spec2Isabelle
  imports Main "HOL-Library.AList" "HOL-Library.Product_Lexorder"
begin

section \<open>Python values used by app.py\<close>

text \<open>
  A Python \<open>str\<close> is a sequence of Unicode code points. Code points are natural numbers
  below \<open>0x110000\<close>; the surrogates \<open>0xD800..0xDFFF\<close> are code points a \<open>str\<close> may hold
  but that UTF-8 cannot encode. The literals of the source are ASCII or Japanese; an ASCII
  literal is written with \<open>py\<close>, a Japanese one as its list of code points.
\<close>

type_synonym pystr = "nat list"

definition py :: "string \<Rightarrow> pystr" where
  "py s = map of_char s"

text \<open>The exceptions that the modelled statements can raise.\<close>

datatype error =
    KeyError | IndexError | ValueError | UnicodeEncodeError | UnicodeDecodeError
  | JSONDecodeError

section \<open>Calendar navigation (app.py, lines 49-74)\<close>

text \<open>
  \<open>st.session_state\<close> holds \<open>current_year\<close>, \<open>current_month\<close> and \<open>selected_date_str\<close>.
  Python integers are unbounded.
\<close>

record session_state =
  current_year :: int
  current_month :: int
  selected_date_str :: pystr

text \<open>
  Lines 58-63, the body run when the button with key \<open>prev_month\<close> was clicked; the
  closing \<open>st.rerun()\<close> restarts the script with the session state it is given.
\<close>

definition prev_month :: "session_state \<Rightarrow> session_state" where
  "prev_month s =
     (let s1 = s\<lparr>current_month := current_month s - 1\<rparr>
      in if current_month s1 < 1
         then (s1\<lparr>current_month := 12\<rparr>)\<lparr>current_year := current_year s1 - 1\<rparr>
         else s1)"

text \<open>Lines 69-74, the body run when the button with key \<open>next_month\<close> was clicked.\<close>

definition next_month :: "session_state \<Rightarrow> session_state" where
  "next_month s =
     (let s1 = s\<lparr>current_month := current_month s + 1\<rparr>
      in if current_month s1 > 12
         then (s1\<lparr>current_month := 1\<rparr>)\<lparr>current_year := current_year s1 + 1\<rparr>
         else s1)"

text \<open>A finite sequence of clicks on the two navigation buttons, one script run each.\<close>

datatype nav_click = Prev_month | Next_month

fun nav_step :: "nav_click \<Rightarrow> session_state \<Rightarrow> session_state" where
  "nav_step Prev_month s = prev_month s"
| "nav_step Next_month s = next_month s"

fun nav_run :: "nav_click list \<Rightarrow> session_state \<Rightarrow> session_state" where
  "nav_run [] s = s"
| "nav_run (c # cs) s = nav_run cs (nav_step c s)"

definition month_ok :: "session_state \<Rightarrow> bool" where
  "month_ok s \<longleftrightarrow> 1 \<le> current_month s \<and> current_month s \<le> 12"


section \<open>The event document (app.py, line 130)\<close>

text \<open>
  An event is the dict built at lines 139-143: the keys \<open>title\<close>, \<open>description\<close> and
  \<open>timestamp\<close>, each with a \<open>str\<close> value. The document \<open>events\<close> is a dict from
  year-month keys to dicts from date keys to lists of events. A Python dict keeps its keys in
  insertion order, which \<open>json.dump\<close> follows, so a dict is an association list:
  \<open>k in d\<close> is \<open>py_in k d\<close>, \<open>d[k]\<close> is \<open>map_of d k\<close> (\<open>None\<close> where Python raises
  \<open>KeyError\<close>), \<open>d[k] = v\<close> is \<open>AList.update k v d\<close> (in place for a key already there,
  at the end for a new one), \<open>del d[k]\<close> is \<open>AList.delete k d\<close>, and \<open>not d\<close> is \<open>d = []\<close>.
\<close>

record event =
  title :: pystr
  description :: pystr
  timestamp :: pystr

type_synonym day_events = "(pystr \<times> event list) list"

type_synonym document = "(pystr \<times> day_events) list"

definition py_in :: "'k \<Rightarrow> ('k \<times> 'v) list \<Rightarrow> bool" where
  "py_in k d \<longleftrightarrow> map_of d k \<noteq> None"

text \<open>
  \<open>del xs[i]\<close> on a list: a negative index counts from the end, an index outside
  \<open>-len(xs) .. len(xs) - 1\<close> raises \<open>IndexError\<close> and leaves the list as it is.
\<close>

definition del_index :: "'a list \<Rightarrow> int \<Rightarrow> error + 'a list" where
  "del_index xs i =
     (let n = int (length xs); j = (if i < 0 then i + n else i)
      in if 0 \<le> j \<and> j < n then Inr (take (nat j) xs @ drop (Suc (nat j)) xs)
         else Inl IndexError)"

section \<open>The clock: \<open>datetime.now().isoformat()\<close> (app.py, line 142)\<close>

record datetime =
  dt_year :: nat
  dt_month :: nat
  dt_day :: nat
  dt_hour :: nat
  dt_minute :: nat
  dt_second :: nat
  dt_microsecond :: nat

text \<open>\<open>zero_pad w v\<close> is the decimal numeral of \<open>v\<close> in \<open>w\<close> digits, as \<open>%0wd\<close> prints it.\<close>

fun zero_pad :: "nat \<Rightarrow> nat \<Rightarrow> pystr" where
  "zero_pad 0 v = []"
| "zero_pad (Suc w) v = zero_pad w (v div 10) @ [48 + v mod 10]"

text \<open>
  \<open>datetime.isoformat()\<close> of a naive datetime: \<open>YYYY-MM-DDTHH:MM:SS\<close>, followed by
  \<open>.ffffff\<close> when the microsecond is not zero.
\<close>

definition isoformat :: "datetime \<Rightarrow> pystr" where
  "isoformat t =
     zero_pad 4 (dt_year t) @ py ''-'' @ zero_pad 2 (dt_month t) @ py ''-''
     @ zero_pad 2 (dt_day t) @ py ''T'' @ zero_pad 2 (dt_hour t) @ py '':''
     @ zero_pad 2 (dt_minute t) @ py '':'' @ zero_pad 2 (dt_second t)
     @ (if dt_microsecond t = 0 then [] else py ''.'' @ zero_pad 6 (dt_microsecond t))"

text \<open>Datetimes compare field by field, the year first.\<close>

definition dt_le :: "datetime \<Rightarrow> datetime \<Rightarrow> bool" where
  "dt_le a b \<longleftrightarrow>
     (dt_year a, dt_month a, dt_day a, dt_hour a, dt_minute a, dt_second a, dt_microsecond a)
     \<le> (dt_year b, dt_month b, dt_day b, dt_hour b, dt_minute b, dt_second b, dt_microsecond b)"

section \<open>The world outside the script\<close>

text \<open>The four message boxes of Streamlit that the script uses, with the text shown.\<close>

datatype ui_msg = St_error pystr | St_warning pystr | St_success pystr | St_info pystr

text \<open>
  \<open>data_file\<close> is the content of \<open>events.json\<close> in bytes, \<open>None\<close> when the file does not
  exist. \<open>shown\<close> is what the script has put on the page, in order. \<open>wall_clock\<close> gives
  the value of each successive call of \<open>datetime.now()\<close>, and \<open>clock_reads\<close> counts the
  calls made so far.
\<close>

record world =
  data_file :: "string option"
  shown :: "ui_msg list"
  wall_clock :: "nat \<Rightarrow> datetime"
  clock_reads :: nat

definition datetime_now :: "world \<Rightarrow> datetime \<times> world" where
  "datetime_now w = (wall_clock w (clock_reads w), w\<lparr>clock_reads := Suc (clock_reads w)\<rparr>)"

definition st_show :: "ui_msg \<Rightarrow> world \<Rightarrow> world" where
  "st_show m w = w\<lparr>shown := shown w @ [m]\<rparr>"

text \<open>A wall clock that never runs backwards.\<close>

definition clock_monotone :: "world \<Rightarrow> bool" where
  "clock_monotone w \<longleftrightarrow> (\<forall>i j. i \<le> j \<longrightarrow> dt_le (wall_clock w i) (wall_clock w j))"

text \<open>
  How a block of the script ends: \<open>st.rerun()\<close> stops the run and starts the script again,
  an exception stops the run, or the block ends and the script goes on.
\<close>

datatype outcome = Rerun | Raised error | Fell_through

section \<open>\<open>save_events\<close> (app.py, lines 27-30)\<close>

subsection \<open>UTF-8 encoding of the text written to the file\<close>

text \<open>
  The file is opened with \<open>encoding='utf-8'\<close> and the default \<open>errors='strict'\<close>: a
  surrogate code point cannot be encoded and raises \<open>UnicodeEncodeError\<close>.
\<close>

definition utf8_encode_cp :: "nat \<Rightarrow> error + nat list" where
  "utf8_encode_cp c =
     (if c < 0x80 then Inr [c]
      else if c < 0x800 then Inr [0xC0 + c div 64, 0x80 + c mod 64]
      else if 0xD800 \<le> c \<and> c \<le> 0xDFFF then Inl UnicodeEncodeError
      else if c < 0x10000
        then Inr [0xE0 + c div 4096, 0x80 + c div 64 mod 64, 0x80 + c mod 64]
      else if c < 0x110000
        then Inr [0xF0 + c div 262144, 0x80 + c div 4096 mod 64, 0x80 + c div 64 mod 64,
                  0x80 + c mod 64]
      else Inl UnicodeEncodeError)"

fun utf8_encode :: "pystr \<Rightarrow> error + nat list" where
  "utf8_encode [] = Inr []"
| "utf8_encode (c # cs) =
     (case utf8_encode_cp c of
        Inl e \<Rightarrow> Inl e
      | Inr bs \<Rightarrow> (case utf8_encode cs of Inl e \<Rightarrow> Inl e | Inr bs' \<Rightarrow> Inr (bs @ bs')))"

subsection \<open>\<open>json.dump(events, f, ensure_ascii=False, indent=4)\<close>\<close>

text \<open>
  With \<open>ensure_ascii=False\<close> a string is written between double quotes with only the
  double quote, the backslash and the control characters below \<open>0x20\<close> escaped; every other
  code point is written as it is.
\<close>

definition hex_digit :: "nat \<Rightarrow> nat" where
  "hex_digit d = (if d < 10 then 48 + d else 87 + d)"

definition escape_char :: "nat \<Rightarrow> pystr" where
  "escape_char c =
     (if c = 0x5C then [0x5C, 0x5C]
      else if c = 0x22 then [0x5C, 0x22]
      else if c = 0x08 then 0x5C # py ''b''
      else if c = 0x0C then 0x5C # py ''f''
      else if c = 0x0A then 0x5C # py ''n''
      else if c = 0x0D then 0x5C # py ''r''
      else if c = 0x09 then 0x5C # py ''t''
      else if c < 0x20 then 0x5C # py ''u00'' @ [hex_digit (c div 16), hex_digit (c mod 16)]
      else [c])"

definition encode_basestring :: "pystr \<Rightarrow> pystr" where
  "encode_basestring s = [0x22] @ concat (map escape_char s) @ [0x22]"

text \<open>
  With \<open>indent=4\<close> every item of a non-empty dict or list starts on a line of its own,
  indented by four spaces for each level; items are separated by a comma, a key and its
  value by a colon and a space; an empty dict is \<open>{}\<close> and an empty list \<open>[]\<close>. The
  encoder hands the text to \<open>f.write\<close> in chunks; the functions below give the chunks in
  order, as \<open>_iterencode_dict\<close> and \<open>_iterencode_list\<close> of the \<open>json\<close> module yield them.
  The second argument of a value's encoder is the indentation level of the container that
  holds the value.
\<close>

definition newline_indent :: "nat \<Rightarrow> pystr" where
  "newline_indent lvl = 0x0A # replicate (4 * lvl) 0x20"

fun iterencode_items ::
  "('v \<Rightarrow> nat \<Rightarrow> pystr list) \<Rightarrow> bool \<Rightarrow> nat \<Rightarrow> (pystr \<times> 'v) list \<Rightarrow> pystr list" where
  "iterencode_items enc first lvl [] = []"
| "iterencode_items enc first lvl ((k, v) # kvs) =
     (if first then [] else [py '','' @ newline_indent lvl])
     @ [encode_basestring k, py '': ''] @ enc v lvl
     @ iterencode_items enc False lvl kvs"

definition iterencode_dict ::
  "('v \<Rightarrow> nat \<Rightarrow> pystr list) \<Rightarrow> (pystr \<times> 'v) list \<Rightarrow> nat \<Rightarrow> pystr list" where
  "iterencode_dict enc dct lvl =
     (if dct = [] then [py ''{}'']
      else [py ''{'', newline_indent (Suc lvl)] @ iterencode_items enc True (Suc lvl) dct
           @ [newline_indent lvl, py ''}''])"

fun iterencode_elems ::
  "('v \<Rightarrow> nat \<Rightarrow> pystr list) \<Rightarrow> bool \<Rightarrow> nat \<Rightarrow> 'v list \<Rightarrow> pystr list" where
  "iterencode_elems enc first lvl [] = []"
| "iterencode_elems enc first lvl (v # vs) =
     [if first then py ''['' @ newline_indent lvl else py '','' @ newline_indent lvl]
     @ enc v lvl @ iterencode_elems enc False lvl vs"

definition iterencode_list :: "('v \<Rightarrow> nat \<Rightarrow> pystr list) \<Rightarrow> 'v list \<Rightarrow> nat \<Rightarrow> pystr list" where
  "iterencode_list enc lst lvl =
     (if lst = [] then [py ''[]'']
      else iterencode_elems enc True (Suc lvl) lst @ [newline_indent lvl, py '']''])"

definition iterencode_str :: "pystr \<Rightarrow> nat \<Rightarrow> pystr list" where
  "iterencode_str s lvl = [encode_basestring s]"

definition event_items :: "event \<Rightarrow> (pystr \<times> pystr) list" where
  "event_items e =
     [(py ''title'', title e), (py ''description'', description e),
      (py ''timestamp'', timestamp e)]"

definition iterencode_event :: "event \<Rightarrow> nat \<Rightarrow> pystr list" where
  "iterencode_event e lvl = iterencode_dict iterencode_str (event_items e) lvl"

definition iterencode :: "document \<Rightarrow> pystr list" where
  "iterencode events =
     iterencode_dict (iterencode_dict (iterencode_list iterencode_event)) events 0"

text \<open>
  \<open>f.write(chunk)\<close> encodes the whole chunk before any of it reaches the file, so a chunk
  that cannot be encoded leaves the file with the chunks written before it.
\<close>

fun write_chunks :: "pystr list \<Rightarrow> nat list \<Rightarrow> nat list \<times> error option" where
  "write_chunks [] written = (written, None)"
| "write_chunks (c # cs) written =
     (case utf8_encode c of
        Inl e \<Rightarrow> (written, Some e)
      | Inr bs \<Rightarrow> write_chunks cs (written @ bs))"

text \<open>
  Opening the file with mode \<open>'w'\<close> creates or empties it; leaving the \<open>with\<close> block,
  also by an exception, closes it with what was written.
\<close>

definition save_events :: "document \<Rightarrow> world \<Rightarrow> world \<times> error option" where
  "save_events events w =
     (case write_chunks (iterencode events) [] of
        (written, r) \<Rightarrow> (w\<lparr>data_file := Some (map char_of written)\<rparr>, r))"

section \<open>\<open>load_events\<close> (app.py, lines 12-24)\<close>

subsection \<open>UTF-8 decoding of the file\<close>

text \<open>
  The file is opened with \<open>encoding='utf-8'\<close> and \<open>errors='strict'\<close>, and \<open>json.load\<close>
  reads all of it at once: a byte sequence that is not well-formed UTF-8 (a stray continuation
  byte, a truncated or overlong sequence, an encoded surrogate, a value above \<open>0x10FFFF\<close>)
  raises \<open>UnicodeDecodeError\<close>. The translation of carriage returns to line feeds that a
  text file makes when read is left out: the two are the same to the JSON decoder, white
  space between tokens and an error inside a string.
\<close>

definition continuation :: "nat \<Rightarrow> bool" where
  "continuation b \<longleftrightarrow> 0x80 \<le> b \<and> b \<le> 0xBF"

definition decoded_cons :: "nat \<Rightarrow> error + pystr \<Rightarrow> error + pystr" where
  "decoded_cons c r = (case r of Inl e \<Rightarrow> Inl e | Inr s \<Rightarrow> Inr (c # s))"

fun utf8_decode :: "nat list \<Rightarrow> error + pystr" where
  "utf8_decode [] = Inr []"
| "utf8_decode (b # bs) =
     (if b < 0x80 then decoded_cons b (utf8_decode bs)
      else if 0xC2 \<le> b \<and> b \<le> 0xDF then
        (case bs of
           b1 # bs' \<Rightarrow>
             if continuation b1
             then decoded_cons ((b - 0xC0) * 64 + (b1 - 0x80)) (utf8_decode bs')
             else Inl UnicodeDecodeError
         | _ \<Rightarrow> Inl UnicodeDecodeError)
      else if 0xE0 \<le> b \<and> b \<le> 0xEF then
        (case bs of
           b1 # b2 # bs' \<Rightarrow>
             if (if b = 0xE0 then 0xA0 else 0x80) \<le> b1
                \<and> b1 \<le> (if b = 0xED then 0x9F else 0xBF) \<and> continuation b2
             then decoded_cons ((b - 0xE0) * 4096 + (b1 - 0x80) * 64 + (b2 - 0x80))
                    (utf8_decode bs')
             else Inl UnicodeDecodeError
         | _ \<Rightarrow> Inl UnicodeDecodeError)
      else if 0xF0 \<le> b \<and> b \<le> 0xF4 then
        (case bs of
           b1 # b2 # b3 # bs' \<Rightarrow>
             if (if b = 0xF0 then 0x90 else 0x80) \<le> b1
                \<and> b1 \<le> (if b = 0xF4 then 0x8F else 0xBF)
                \<and> continuation b2 \<and> continuation b3
             then decoded_cons ((b - 0xF0) * 262144 + (b1 - 0x80) * 4096 + (b2 - 0x80) * 64
                                + (b3 - 0x80))
                    (utf8_decode bs')
             else Inl UnicodeDecodeError
         | _ \<Rightarrow> Inl UnicodeDecodeError)
      else Inl UnicodeDecodeError)"

subsection \<open>\<open>json.load\<close>\<close>

text \<open>
  What \<open>json.load\<close> returns: \<open>None\<close>, a bool, an int, a float, a \<open>str\<close>, a list or a
  dict with \<open>str\<close> keys. A float is kept as the text that was read (a number with a
  fraction or an exponent, or \<open>NaN\<close>, \<open>Infinity\<close>, \<open>-Infinity\<close>); its rounding to a
  binary float is not modelled, and the documents of this program hold no numbers.
\<close>

datatype json =
    JNull | JBool bool | JInt int | JFloat pystr | JStr pystr
  | JArr "json list" | JObj "(pystr \<times> json) list"


text \<open>
  The result of scanning a value at the start of a text: the value and the rest of the text,
  or a \<open>JSONDecodeError\<close>. \<open>Out_of_fuel\<close> is not a result of the Python code: the
  recursion of the scanner is bounded here by a counter, and \<open>Out_of_fuel\<close> says that the
  counter was too small.
\<close>

datatype 'a scanned = Scanned 'a pystr | Decode_error | Out_of_fuel


text \<open>\<open>WHITESPACE\<close>: blanks, tabs, line feeds and carriage returns are skipped.\<close>

definition is_ws :: "nat \<Rightarrow> bool" where
  "is_ws c \<longleftrightarrow> c = 0x20 \<or> c = 0x09 \<or> c = 0x0A \<or> c = 0x0D"

definition skip_ws :: "pystr \<Rightarrow> pystr" where
  "skip_ws s = dropWhile is_ws s"


text \<open>
  \<open>scanstring\<close> reads a string from the character after its opening quote. A backslash
  starts one of the escapes of \<open>BACKSLASH\<close> or a \<open>u\<close> with four hexadecimal digits; a
  high surrogate escape followed by a low surrogate escape gives one code point, and a
  surrogate escape on its own is kept as it is. A control character below \<open>0x20\<close> in the
  string is an error, and so is the end of the text before the closing quote.
\<close>

definition hex_value :: "nat \<Rightarrow> nat option" where
  "hex_value c =
     (if 0x30 \<le> c \<and> c \<le> 0x39 then Some (c - 0x30)
      else if 0x41 \<le> c \<and> c \<le> 0x46 then Some (c - 0x37)
      else if 0x61 \<le> c \<and> c \<le> 0x66 then Some (c - 0x57)
      else None)"

fun decode_uXXXX :: "pystr \<Rightarrow> nat option" where
  "decode_uXXXX (a # b # c # d # s) =
     (case (hex_value a, hex_value b, hex_value c, hex_value d) of
        (Some x, Some y, Some z, Some w) \<Rightarrow> Some (((x * 16 + y) * 16 + z) * 16 + w)
      | _ \<Rightarrow> None)"
| "decode_uXXXX s = None"

definition BACKSLASH :: "nat \<Rightarrow> nat option" where
  "BACKSLASH esc =
     (if esc = 0x22 then Some 0x22
      else if esc = 0x5C then Some 0x5C
      else if esc = 0x2F then Some 0x2F
      else if esc = 0x62 then Some 0x08
      else if esc = 0x66 then Some 0x0C
      else if esc = 0x6E then Some 0x0A
      else if esc = 0x72 then Some 0x0D
      else if esc = 0x74 then Some 0x09
      else None)"

definition low_surrogate :: "pystr \<Rightarrow> nat option" where
  "low_surrogate s =
     (case s of
        bs # u # s' \<Rightarrow>
          (if bs = 0x5C \<and> u = 0x75
           then (case decode_uXXXX s' of
                   Some uni2 \<Rightarrow> if 0xDC00 \<le> uni2 \<and> uni2 \<le> 0xDFFF then Some uni2 else None
                 | None \<Rightarrow> None)
           else None)
      | _ \<Rightarrow> None)"

definition scanned_cons :: "nat \<Rightarrow> (pystr \<times> pystr) option \<Rightarrow> (pystr \<times> pystr) option" where
  "scanned_cons c r = (case r of None \<Rightarrow> None | Some (str, rest) \<Rightarrow> Some (c # str, rest))"

function scanstring :: "pystr \<Rightarrow> (pystr \<times> pystr) option" where
  "scanstring [] = None"
| "scanstring (c # s) =
     (if c = 0x22 then Some ([], s)
      else if c = 0x5C then
        (case s of
           [] \<Rightarrow> None
         | esc # s1 \<Rightarrow>
             if esc \<noteq> 0x75 then
               (case BACKSLASH esc of
                  None \<Rightarrow> None
                | Some char \<Rightarrow> scanned_cons char (scanstring s1))
             else
               (case decode_uXXXX s1 of
                  None \<Rightarrow> None
                | Some uni \<Rightarrow>
                    (case (if 0xD800 \<le> uni \<and> uni \<le> 0xDBFF then low_surrogate (drop 4 s1)
                           else None) of
                       Some uni2 \<Rightarrow>
                         scanned_cons (0x10000 + ((uni - 0xD800) * 1024 + (uni2 - 0xDC00)))
                           (scanstring (drop 10 s1))
                     | None \<Rightarrow> scanned_cons uni (scanstring (drop 4 s1)))))
      else if c < 0x20 then None
      else scanned_cons c (scanstring s))"
  by pat_completeness auto
termination
  by (relation "measure length") auto


text \<open>
  \<open>NUMBER_RE\<close>: an optional minus sign and \<open>0\<close> or a digit sequence that does not start
  with \<open>0\<close>; then, each optional, a fraction (a dot and digits) and an exponent (\<open>e\<close> or
  \<open>E\<close>, an optional sign and digits). Without fraction and exponent the number is an int.
\<close>

definition is_digit :: "nat \<Rightarrow> bool" where
  "is_digit c \<longleftrightarrow> 0x30 \<le> c \<and> c \<le> 0x39"

definition int_of_digits :: "pystr \<Rightarrow> int" where
  "int_of_digits ds = foldl (\<lambda>a d. 10 * a + (int d - 0x30)) 0 ds"

definition match_integer :: "pystr \<Rightarrow> (pystr \<times> pystr) option" where
  "match_integer s =
     (let (sign, s1) = (case s of c # s' \<Rightarrow> if c = 0x2D then ([c], s') else ([], s) | [] \<Rightarrow> ([], s))
      in case s1 of
           [] \<Rightarrow> None
         | c # s2 \<Rightarrow>
             if c = 0x30 then Some (sign @ [c], s2)
             else if is_digit c then Some (sign @ c # takeWhile is_digit s2, dropWhile is_digit s2)
             else None)"

definition match_frac :: "pystr \<Rightarrow> pystr \<times> pystr" where
  "match_frac s =
     (case s of
        c # d # s' \<Rightarrow>
          if c = 0x2E \<and> is_digit d
          then (c # d # takeWhile is_digit s', dropWhile is_digit s') else ([], s)
      | _ \<Rightarrow> ([], s))"

definition match_exp :: "pystr \<Rightarrow> pystr \<times> pystr" where
  "match_exp s =
     (case s of
        [] \<Rightarrow> ([], s)
      | e # s1 \<Rightarrow>
          if e = 0x65 \<or> e = 0x45 then
            (let (sign, s2) = (case s1 of c # s' \<Rightarrow> if c = 0x2D \<or> c = 0x2B then ([c], s') else ([], s1)
                               | [] \<Rightarrow> ([], s1))
             in case s2 of
                  d # s3 \<Rightarrow>
                    if is_digit d
                    then (e # sign @ d # takeWhile is_digit s3, dropWhile is_digit s3)
                    else ([], s)
                | [] \<Rightarrow> ([], s))
          else ([], s))"

definition match_number :: "pystr \<Rightarrow> (json \<times> pystr) option" where
  "match_number s =
     (case match_integer s of
        None \<Rightarrow> None
      | Some (integer, s1) \<Rightarrow>
          (let (frac, s2) = match_frac s1; (exp, s3) = match_exp s2
           in if frac \<noteq> [] \<or> exp \<noteq> [] then Some (JFloat (integer @ frac @ exp), s3)
              else Some (JInt (case integer of
                                 c # ds \<Rightarrow> if c = 0x2D then - int_of_digits ds
                                           else int_of_digits integer
                               | [] \<Rightarrow> 0), s3)))"


text \<open>
  The literals \<open>null\<close>, \<open>true\<close> and \<open>false\<close> are tried first, then a number, then
  \<open>NaN\<close>, \<open>Infinity\<close> and \<open>-Infinity\<close>, in the order of \<open>scan_once\<close>.
\<close>

definition starts_with :: "pystr \<Rightarrow> pystr \<Rightarrow> bool" where
  "starts_with p s \<longleftrightarrow> take (length p) s = p"

definition scan_literal :: "pystr \<Rightarrow> json scanned" where
  "scan_literal s =
     (if starts_with (py ''null'') s then Scanned JNull (drop 4 s)
      else if starts_with (py ''true'') s then Scanned (JBool True) (drop 4 s)
      else if starts_with (py ''false'') s then Scanned (JBool False) (drop 5 s)
      else case match_number s of
             Some (res, rest) \<Rightarrow> Scanned res rest
           | None \<Rightarrow>
               if starts_with (py ''NaN'') s then Scanned (JFloat (py ''NaN'')) (drop 3 s)
               else if starts_with (py ''Infinity'') s
                 then Scanned (JFloat (py ''Infinity'')) (drop 8 s)
               else if starts_with (py ''-Infinity'') s
                 then Scanned (JFloat (py ''-Infinity'')) (drop 9 s)
               else Decode_error)"


text \<open>
  \<open>dict(pairs)\<close>: a key that comes again keeps its first place and takes the later value.
\<close>

definition dict :: "('k \<times> 'v) list \<Rightarrow> ('k \<times> 'v) list" where
  "dict pairs = foldl (\<lambda>d (k, v). AList.update k v d) [] pairs"


text \<open>
  \<open>scan_once\<close> scans one value. \<open>JSONObject\<close> is the loop of the function of that name,
  entered after the opening quote of a key with the pairs read so far, and \<open>JSONArray\<close>
  the loop of the function of that name, entered at the start of an element with the elements
  read so far. The first argument bounds the depth of the recursion.
\<close>

fun scan_once :: "nat \<Rightarrow> pystr \<Rightarrow> json scanned"
  and JSONObject :: "nat \<Rightarrow> (pystr \<times> json) list \<Rightarrow> pystr \<Rightarrow> json scanned"
  and JSONArray :: "nat \<Rightarrow> json list \<Rightarrow> pystr \<Rightarrow> json scanned" where
  "scan_once 0 s = Out_of_fuel"
| "scan_once (Suc n) [] = Decode_error"
| "scan_once (Suc n) (c # s) =
     (if c = 0x22 then
        (case scanstring s of
           None \<Rightarrow> Decode_error
         | Some (str, rest) \<Rightarrow> Scanned (JStr str) rest)
      else if c = 0x7B then
        (case skip_ws s of
           [] \<Rightarrow> Decode_error
         | d # s1 \<Rightarrow>
             if d = 0x7D then Scanned (JObj []) s1
             else if d = 0x22 then JSONObject n [] s1
             else Decode_error)
      else if c = 0x5B then
        (case skip_ws s of
           [] \<Rightarrow> Decode_error
         | d # s1 \<Rightarrow>
             if d = 0x5D then Scanned (JArr []) s1
             else JSONArray n [] (d # s1))
      else scan_literal (c # s))"
| "JSONObject 0 pairs s = Out_of_fuel"
| "JSONObject (Suc n) pairs s =
     (case scanstring s of
        None \<Rightarrow> Decode_error
      | Some (key, s1) \<Rightarrow>
          (case skip_ws s1 of
             [] \<Rightarrow> Decode_error
           | colon # s2 \<Rightarrow>
               if colon \<noteq> 0x3A then Decode_error
               else
                 (case scan_once n (skip_ws s2) of
                    Scanned v s3 \<Rightarrow>
                      (case skip_ws s3 of
                         [] \<Rightarrow> Decode_error
                       | nextchar # s4 \<Rightarrow>
                           if nextchar = 0x7D then Scanned (JObj (dict (pairs @ [(key, v)]))) s4
                           else if nextchar \<noteq> 0x2C then Decode_error
                           else
                             (case skip_ws s4 of
                                [] \<Rightarrow> Decode_error
                              | q # s5 \<Rightarrow>
                                  if q \<noteq> 0x22 then Decode_error
                                  else JSONObject n (pairs @ [(key, v)]) s5))
                  | Decode_error \<Rightarrow> Decode_error
                  | Out_of_fuel \<Rightarrow> Out_of_fuel)))"
| "JSONArray 0 vs s = Out_of_fuel"
| "JSONArray (Suc n) vs s =
     (case scan_once n s of
        Scanned v s1 \<Rightarrow>
          (case skip_ws s1 of
             [] \<Rightarrow> Decode_error
           | nextchar # s2 \<Rightarrow>
               if nextchar = 0x5D then Scanned (JArr (vs @ [v])) s2
               else if nextchar \<noteq> 0x2C then Decode_error
               else JSONArray n (vs @ [v]) (skip_ws s2))
      | Decode_error \<Rightarrow> Decode_error
      | Out_of_fuel \<Rightarrow> Out_of_fuel)"

text \<open>
  \<open>JSONDecoder.decode\<close> as \<open>json.loads\<close> calls it: a text that starts with a byte order
  mark is refused, white space around the one value is skipped, and anything after it is an
  error. The counter is set above twice the length of the text; \<open>None\<close> says that it was
  too small.
\<close>

definition json_loads :: "pystr \<Rightarrow> (error + json) option" where
  "json_loads s =
     (if starts_with [0xFEFF] s then Some (Inl JSONDecodeError)
      else case scan_once (2 * length s + 2) (skip_ws s) of
             Scanned obj rest \<Rightarrow>
               if skip_ws rest = [] then Some (Inr obj) else Some (Inl JSONDecodeError)
           | Decode_error \<Rightarrow> Some (Inl JSONDecodeError)
           | Out_of_fuel \<Rightarrow> None)"

subsection \<open>\<open>load_events\<close>\<close>

definition MSG_CORRUPT :: pystr where
  "MSG_CORRUPT = [12452, 12505, 12531, 12488, 12501, 12449, 12452, 12523, 12364, 30772, 25613,
                  12375, 12390, 12356, 12414, 12377, 12290, 31354, 12398, 12487, 12540, 12479,
                  12391, 38283, 22987, 12375, 12414, 12377, 12290]"

text \<open>
  A missing file gives the empty dict. Only \<open>json.JSONDecodeError\<close> is caught: it gives the
  empty dict and an error box on the page. Every other exception leaves the function. The
  file is only read. The result is \<open>None\<close> where the counter of \<open>json_loads\<close> was too
  small.
\<close>

definition load_events :: "world \<Rightarrow> ((error + json) \<times> world) option" where
  "load_events w =
     (case data_file w of
        None \<Rightarrow> Some (Inr (JObj []), w)
      | Some content \<Rightarrow>
          (case utf8_decode (map of_char content) of
             Inl e \<Rightarrow> Some (Inl e, w)
           | Inr text \<Rightarrow>
               (case json_loads text of
                  None \<Rightarrow> None
                | Some (Inl e) \<Rightarrow> Some (Inr (JObj []), st_show (St_error MSG_CORRUPT) w)
                | Some (Inr obj) \<Rightarrow> Some (Inr obj, w))))"

subsection \<open>The document as a value of \<open>json.load\<close>\<close>

definition json_of_event :: "event \<Rightarrow> json" where
  "json_of_event e = JObj (map (\<lambda>(k, v). (k, JStr v)) (event_items e))"

definition json_of_day_events :: "day_events \<Rightarrow> json" where
  "json_of_day_events m = JObj (map (\<lambda>(d, l). (d, JArr (map json_of_event l))) m)"

definition json_of_document :: "document \<Rightarrow> json" where
  "json_of_document events = JObj (map (\<lambda>(ym, m). (ym, json_of_day_events m)) events)"

section \<open>Adding an event (app.py, lines 118-148)\<close>

definition MSG_ADDED :: pystr where
  "MSG_ADDED = [12452, 12505, 12531, 12488, 12434, 36861, 21152, 12375, 12414, 12375, 12383,
                65281]"

definition MSG_TITLE_REQUIRED :: pystr where
  "MSG_TITLE_REQUIRED = [12452, 12505, 12531, 12488, 12479, 12452, 12488, 12523, 12399, 24517,
                         38920, 12391, 12377, 12290]"

text \<open>
  The block run when the button \<open>add_event_button_<date>\<close> was clicked, with the selected
  date of the session state and the contents of the title and description inputs. The
  document is changed in memory before it is saved, so it is returned with every outcome.
\<close>

definition add_event_button ::
  "pystr \<Rightarrow> pystr \<Rightarrow> pystr \<Rightarrow> document \<Rightarrow> world \<Rightarrow> document \<times> world \<times> outcome" where
  "add_event_button selected_date event_title event_description events w =
     (let selected_year_month = take 7 selected_date
      in if event_title \<noteq> [] then
           let events1 = (if \<not> py_in selected_year_month events
                          then AList.update selected_year_month [] events else events)
           in case map_of events1 selected_year_month of
                None \<Rightarrow> (events1, w, Raised KeyError)
              | Some month_events \<Rightarrow>
                  let month1 = (if \<not> py_in selected_date month_events
                                then AList.update selected_date [] month_events
                                else month_events);
                      events2 = AList.update selected_year_month month1 events1
                  in case map_of month1 selected_date of
                       None \<Rightarrow> (events2, w, Raised KeyError)
                     | Some day_list \<Rightarrow>
                         let (now, w1) = datetime_now w;
                             new_event = \<lparr>title = event_title,
                                          description = event_description,
                                          timestamp = isoformat now\<rparr>;
                             events3 = AList.update selected_year_month
                                         (AList.update selected_date (day_list @ [new_event]) month1)
                                         events2;
                             (w2, r) = save_events events3 w1
                         in case r of
                              Some e \<Rightarrow> (events3, w2, Raised e)
                            | None \<Rightarrow> (events3, st_show (St_success MSG_ADDED) w2, Rerun)
         else (events, st_show (St_warning MSG_TITLE_REQUIRED) w, Fell_through))"

section \<open>Listing and deleting the events of the selected date (app.py, lines 153-187)\<close>

definition MSG_DELETED :: pystr where
  "MSG_DELETED = [12452, 12505, 12531, 12488, 12434, 21066, 38500, 12375, 12414, 12375, 12383,
                  12290]"

definition MSG_NO_EVENTS :: pystr where
  "MSG_NO_EVENTS = [12371, 12398, 26085, 20184, 12395, 12399, 12452, 12505, 12531, 12488, 12364,
                    12354, 12426, 12414, 12379, 12435, 12290]"

text \<open>
  Lines 156-159: the list that the page shows for the selected date, empty when the
  year-month key or the date key is not in the document.
\<close>

definition daily_events :: "pystr \<Rightarrow> document \<Rightarrow> event list" where
  "daily_events selected_date events =
     (case map_of events (take 7 selected_date) of
        None \<Rightarrow> []
      | Some month_events \<Rightarrow>
          (case map_of month_events selected_date of None \<Rightarrow> [] | Some day_list \<Rightarrow> day_list))"

text \<open>
  Lines 171-183, the block run when the delete button of the event at position \<open>i\<close> was
  clicked. Every path through it ends the script run.
\<close>

definition delete_event ::
  "pystr \<Rightarrow> int \<Rightarrow> document \<Rightarrow> world \<Rightarrow> document \<times> world \<times> outcome" where
  "delete_event selected_date i events w =
     (let selected_year_month = take 7 selected_date
      in case map_of events selected_year_month of
           None \<Rightarrow> (events, w, Raised KeyError)
         | Some month_events \<Rightarrow>
             (case map_of month_events selected_date of
                None \<Rightarrow> (events, w, Raised KeyError)
              | Some day_list \<Rightarrow>
                  (case del_index day_list i of
                     Inl e \<Rightarrow> (events, w, Raised e)
                   | Inr day1 \<Rightarrow>
                       let month1 = AList.update selected_date day1 month_events;
                           month2 = (if day1 = [] then AList.delete selected_date month1
                                     else month1);
                           events2 = AList.update selected_year_month month2 events;
                           events3 = (if month2 = [] then AList.delete selected_year_month events2
                                      else events2);
                           (w1, r) = save_events events3 w
                       in case r of
                            Some e \<Rightarrow> (events3, w1, Raised e)
                          | None \<Rightarrow> (events3, st_show (St_success MSG_DELETED) w1, Rerun))))"

text \<open>
  Lines 161-183, the loop over \<open>enumerate(daily_events)\<close>, here over the events from
  position \<open>i\<close> on. Each event is shown with its title, its description and its timestamp,
  which \<open>datetime.fromisoformat\<close> must accept: \<open>iso_ok\<close> says of a string whether it does,
  and a string it refuses raises \<open>ValueError\<close>. The delete button of position \<open>i\<close> has the
  key \<open>delete_event_<date>_<i>\<close>; \<open>clicked\<close> is the date and the position in the key of the
  delete button that was clicked, if one was.
\<close>

fun delete_buttons ::
  "(pystr \<Rightarrow> bool) \<Rightarrow> pystr \<Rightarrow> (pystr \<times> int) option \<Rightarrow> nat \<Rightarrow> event list \<Rightarrow>
   document \<Rightarrow> world \<Rightarrow> document \<times> world \<times> outcome" where
  "delete_buttons iso_ok selected_date clicked i [] events w = (events, w, Fell_through)"
| "delete_buttons iso_ok selected_date clicked i (e # es) events w =
     (if \<not> iso_ok (timestamp e) then (events, w, Raised ValueError)
      else if clicked = Some (selected_date, int i)
        then delete_event selected_date (int i) events w
      else delete_buttons iso_ok selected_date clicked (Suc i) es events w)"

text \<open>Lines 156-187, with the two places that report that the date has no events.\<close>

definition event_list ::
  "(pystr \<Rightarrow> bool) \<Rightarrow> pystr \<Rightarrow> (pystr \<times> int) option \<Rightarrow> document \<Rightarrow> world \<Rightarrow>
   document \<times> world \<times> outcome" where
  "event_list iso_ok selected_date clicked events w =
     (let selected_year_month = take 7 selected_date
      in if py_in selected_year_month events
            \<and> (case map_of events selected_year_month of
                  None \<Rightarrow> False | Some month_events \<Rightarrow> py_in selected_date month_events)
         then let day_list = daily_events selected_date events
              in if day_list \<noteq> []
                 then delete_buttons iso_ok selected_date clicked 0 day_list events w
                 else (events, st_show (St_info MSG_NO_EVENTS) w, Fell_through)
         else (events, st_show (St_info MSG_NO_EVENTS) w, Fell_through))"

text \<open>
  A sequence of additions and deletions, each one script run on the document that the run
  before has left. No empty container: every year-month key has a date, every date key an
  event.
\<close>

datatype store_op = Add_event pystr pystr pystr | Delete_click pystr int

fun store_step ::
  "(pystr \<Rightarrow> bool) \<Rightarrow> store_op \<Rightarrow> document \<times> world \<Rightarrow> document \<times> world" where
  "store_step iso_ok (Add_event d t x) (events, w) =
     (case add_event_button d t x events w of (events', w', r) \<Rightarrow> (events', w'))"
| "store_step iso_ok (Delete_click d i) (events, w) =
     (case event_list iso_ok d (Some (d, i)) events w of (events', w', r) \<Rightarrow> (events', w'))"

fun store_run ::
  "(pystr \<Rightarrow> bool) \<Rightarrow> store_op list \<Rightarrow> document \<times> world \<Rightarrow> document \<times> world" where
  "store_run iso_ok [] s = s"
| "store_run iso_ok (x # xs) s = store_run iso_ok xs (store_step iso_ok x s)"

definition no_empty_containers :: "document \<Rightarrow> bool" where
  "no_empty_containers events \<longleftrightarrow>
     (\<forall>(ym, month_events) \<in> set events.
        month_events \<noteq> [] \<and> (\<forall>(d, day_list) \<in> set month_events. day_list \<noteq> []))"

section \<open>Reading the document\<close>

text \<open>
  \<open>month_of ym events\<close> is \<open>events.get(ym, {})\<close> and \<open>lookup_day ym d events\<close> is
  \<open>events[ym][d]\<close> where both keys are there, \<open>None\<close> where one is missing.
\<close>

definition month_of :: "pystr \<Rightarrow> document \<Rightarrow> day_events" where
  "month_of ym events = (case map_of events ym of None \<Rightarrow> [] | Some m \<Rightarrow> m)"

definition lookup_day :: "pystr \<Rightarrow> pystr \<Rightarrow> document \<Rightarrow> event list option" where
  "lookup_day ym d events = (case map_of events ym of None \<Rightarrow> None | Some m \<Rightarrow> map_of m d)"

text \<open>
  What lines 171-179 leave of the document once the list of date \<open>d\<close> has become \<open>l\<close>:
  an empty list takes its date key away, an empty year-month dict its year-month key.
\<close>

definition pruned :: "pystr \<Rightarrow> event list \<Rightarrow> document \<Rightarrow> document" where
  "pruned d l events =
     (let ym = take 7 d;
          m = (if l = [] then AList.delete d (month_of ym events)
               else AList.update d l (month_of ym events))
      in if m = [] then AList.delete ym events else AList.update ym m events)"

section \<open>Documents that can be written and read back\<close>

text \<open>
  A dict has each key once; this holds of every Python dict and is said here of the
  association lists that stand for them.
\<close>

definition wf_document :: "document \<Rightarrow> bool" where
  "wf_document events \<longleftrightarrow>
     distinct (map fst events) \<and> (\<forall>m \<in> snd ` set events. distinct (map fst m))"

text \<open>
  The code points that UTF-8 can encode: those below \<open>0x110000\<close> that are not surrogates.
  A document is encodable when all its keys and all the strings of its events are.
\<close>

definition encodable :: "pystr \<Rightarrow> bool" where
  "encodable s \<longleftrightarrow> (\<forall>c \<in> set s. c < 0x110000 \<and> \<not> (0xD800 \<le> c \<and> c \<le> 0xDFFF))"

definition encodable_event :: "event \<Rightarrow> bool" where
  "encodable_event e \<longleftrightarrow>
     encodable (title e) \<and> encodable (description e) \<and> encodable (timestamp e)"

definition encodable_document :: "document \<Rightarrow> bool" where
  "encodable_document events \<longleftrightarrow>
     (\<forall>(ym, m) \<in> set events.
        encodable ym \<and> (\<forall>(d, l) \<in> set m. encodable d \<and> (\<forall>e \<in> set l. encodable_event e)))"

text \<open>
  \<open>decodes enc J v\<close>: the text that the encoder \<open>enc\<close> writes for \<open>v\<close>, at any
  indentation and followed by anything, starts with a character that is neither white space
  nor a closing bracket, and \<open>scan_once\<close> reads it back as \<open>J v\<close> and stops at its end,
  given a counter above the length of the text.
\<close>

definition decodes :: "('v \<Rightarrow> nat \<Rightarrow> pystr list) \<Rightarrow> ('v \<Rightarrow> json) \<Rightarrow> 'v \<Rightarrow> bool" where
  "decodes enc J v \<longleftrightarrow>
     (\<forall>lvl. (\<exists>c t. concat (enc v lvl) = c # t \<and> \<not> is_ws c \<and> c \<noteq> 0x5D)
            \<and> (\<forall>n rest. length (concat (enc v lvl)) < n \<longrightarrow>
                   scan_once n (concat (enc v lvl) @ rest) = Scanned (J v) rest))"

section \<open>Example data\<close>

definition example_clock :: "nat \<Rightarrow> datetime" where
  "example_clock n = \<lparr>dt_year = 2024, dt_month = 3, dt_day = 1, dt_hour = 9, dt_minute = 5,
                       dt_second = 7, dt_microsecond = n\<rparr>"

definition example_world :: world where
  "example_world = \<lparr>data_file = None, shown = [], wall_clock = example_clock, clock_reads = 3\<rparr>"

definition example_event :: event where
  "example_event = \<lparr>title = py ''Meeting'', description = py ''Standup'',
                     timestamp = py ''2024-03-01T09:05:07.000003''\<rparr>"

definition example_doc :: document where
  "example_doc = [(py ''2024-03'', [(py ''2024-03-15'', [example_event])])]"

definition example_doc_ja :: document where
  "example_doc_ja =
     [(py ''2024-03'',
       [(py ''2024-03-15'',
         [\<lparr>title = [20250, 35696], description = [0x1F600, 0x22, 0x0A],
           timestamp = py ''2024-03-01T09:05:07.000003''\<rparr>])])]"

definition surrogate_doc :: document where
  "surrogate_doc =
     [(py ''2024-03'',
       [(py ''2024-03-15'', [\<lparr>title = [0xD800], description = [], timestamp = py ''t''\<rparr>])])]"

definition surrogate_file :: string where
  "surrogate_file = map char_of [123, 34, 50, 48, 50, 52, 45, 48, 51, 34, 58, 32, 123, 34, 50,
       48, 50, 52, 45, 48, 51, 45, 49, 53, 34, 58, 32, 91, 123, 34, 116, 105, 116, 108, 101,
       34, 58, 32, 34, 92, 117, 100, 56, 48, 48, 34, 44, 32, 34, 100, 101, 115, 99, 114, 105,
       112, 116, 105, 111, 110, 34, 58, 32, 34, 34, 44, 32, 34, 116, 105, 109, 101, 115, 116,
       97, 109, 112, 34, 58, 32, 34, 116, 34, 125, 93, 125, 125 :: nat]"

definition surrogate_partial :: "nat list" where
  "surrogate_partial = [123, 10, 32, 32, 32, 32, 34, 50, 48, 50, 52, 45, 48, 51, 34, 58, 32,
       123, 10, 32, 32, 32, 32, 32, 32, 32, 32, 34, 50, 48, 50, 52, 45, 48, 51, 45, 49, 53, 34,
       58, 32, 91, 10, 32, 32, 32, 32, 32, 32, 32, 32, 32, 32, 32, 32, 123, 10, 32, 32, 32, 32,
       32, 32, 32, 32, 32, 32, 32, 32, 32, 32, 32, 32, 34, 116, 105, 116, 108, 101, 34, 58, 32]"

definition truncated_file :: string where
  "truncated_file = [CHR 0x22, CHR 0xE3, CHR 0x81]"


section \<open>Navigation theorems\<close>

lemma month_ok_nav_step: "month_ok s \<Longrightarrow> month_ok (nav_step c s)"
  by (cases c) (auto simp: month_ok_def prev_month_def next_month_def Let_def)

text \<open>
  C7. From January, \<open>prev_month\<close> gives December of the year before; from December,
  \<open>next_month\<close> gives January of the year after. From a month 2..12 \<open>prev_month\<close>
  subtracts one from the month, from a month 1..11 \<open>next_month\<close> adds one, and both leave
  the year as it is. The selected date is never touched.
\<close>

theorem month_navigation:
  "prev_month \<lparr>current_year = Y, current_month = 1, selected_date_str = d\<rparr>
     = \<lparr>current_year = Y - 1, current_month = 12, selected_date_str = d\<rparr>
   \<and> next_month \<lparr>current_year = Y, current_month = 12, selected_date_str = d\<rparr>
     = \<lparr>current_year = Y + 1, current_month = 1, selected_date_str = d\<rparr>
   \<and> (2 \<le> m \<and> m \<le> 12 \<longrightarrow>
        prev_month \<lparr>current_year = Y, current_month = m, selected_date_str = d\<rparr>
          = \<lparr>current_year = Y, current_month = m - 1, selected_date_str = d\<rparr>)
   \<and> (1 \<le> m \<and> m \<le> 11 \<longrightarrow>
        next_month \<lparr>current_year = Y, current_month = m, selected_date_str = d\<rparr>
          = \<lparr>current_year = Y, current_month = m + 1, selected_date_str = d\<rparr>)"
  by (simp add: prev_month_def next_month_def Let_def)

theorem month_navigation_witness:
  "prev_month \<lparr>current_year = 2024, current_month = 1, selected_date_str = py ''2024-03-15''\<rparr>
     = \<lparr>current_year = 2023, current_month = 12, selected_date_str = py ''2024-03-15''\<rparr>
   \<and> next_month \<lparr>current_year = 2024, current_month = 12, selected_date_str = py ''2024-03-15''\<rparr>
     = \<lparr>current_year = 2025, current_month = 1, selected_date_str = py ''2024-03-15''\<rparr>
   \<and> (2::int) \<le> 7 \<and> (7::int) \<le> 12
   \<and> prev_month \<lparr>current_year = 2024, current_month = 7, selected_date_str = py ''2024-03-15''\<rparr>
     = \<lparr>current_year = 2024, current_month = 6, selected_date_str = py ''2024-03-15''\<rparr>
   \<and> (1::int) \<le> 7 \<and> (7::int) \<le> 11
   \<and> next_month \<lparr>current_year = 2024, current_month = 7, selected_date_str = py ''2024-03-15''\<rparr>
     = \<lparr>current_year = 2024, current_month = 8, selected_date_str = py ''2024-03-15''\<rparr>"
  using month_navigation [of 2024 "py ''2024-03-15''" 7] by simp

text \<open>
  C9. A session state whose month is in 1..12 keeps a month in 1..12 through every finite
  sequence of clicks on the previous-month and next-month buttons.
\<close>

theorem month_range_invariant: "month_ok s \<Longrightarrow> month_ok (nav_run cs s)"
proof (induction cs arbitrary: s)
  case Nil
  then show ?case by simp
next
  case (Cons c cs)
  from Cons.prems have "month_ok (nav_step c s)" by (rule month_ok_nav_step)
  then show ?case by (simp add: Cons.IH)
qed

theorem month_range_invariant_witness:
  "month_ok \<lparr>current_year = 2024, current_month = 1, selected_date_str = []\<rparr>
   \<and> month_ok (nav_run [Prev_month, Prev_month, Next_month, Next_month, Next_month]
        \<lparr>current_year = 2024, current_month = 1, selected_date_str = []\<rparr>)
   \<and> nav_run [Prev_month, Prev_month, Next_month, Next_month, Next_month]
        \<lparr>current_year = 2024, current_month = 1, selected_date_str = []\<rparr>
      = \<lparr>current_year = 2024, current_month = 2, selected_date_str = []\<rparr>"
proof -
  have h: "month_ok \<lparr>current_year = 2024, current_month = 1, selected_date_str = []\<rparr>"
    by (simp add: month_ok_def)
  show ?thesis
    using h month_range_invariant [OF h, of "[Prev_month, Prev_month, Next_month, Next_month, Next_month]"]
    by (simp add: prev_month_def next_month_def Let_def)
qed

section \<open>Event store theorems\<close>



lemma add_event_button_events:
  assumes "t \<noteq> []"
  shows "fst (add_event_button d t x events w)
         = AList.update (take 7 d)
             (AList.update d
                (daily_events d events
                 @ [\<lparr>title = t, description = x, timestamp = isoformat (wall_clock w (clock_reads w))\<rparr>])
                (month_of (take 7 d) events))
             events"
  using assms
  by (auto simp: add_event_button_def daily_events_def month_of_def py_in_def Let_def
      datetime_now_def update_conv' split: option.splits prod.splits)

lemma add_event_button_world:
  assumes "t \<noteq> []"
  shows "wall_clock (fst (snd (add_event_button d t x events w))) = wall_clock w
       \<and> clock_reads (fst (snd (add_event_button d t x events w))) = Suc (clock_reads w)"
  using assms
  by (auto simp: add_event_button_def py_in_def Let_def st_show_def save_events_def
      datetime_now_def update_conv' split: option.splits prod.splits)


lemma daily_events_lookup:
  "daily_events d events = (case lookup_day (take 7 d) d events of None \<Rightarrow> [] | Some l \<Rightarrow> l)"
  by (simp add: daily_events_def lookup_day_def split: option.splits)

lemma lookup_day_update:
  "lookup_day ym' d' (AList.update ym (AList.update d l (month_of ym events)) events)
   = (if ym' = ym \<and> d' = d then Some l else lookup_day ym' d' events)"
  by (auto simp: lookup_day_def month_of_def update_conv' split: option.splits)

text \<open>
  C1. With a non-empty title, after the add-event block the list shown for the selected date
  is the list from before with one record appended at its end; the record has the title and
  the description that were entered, and its timestamp is the ISO format of the one clock
  reading taken during the block. With a clock that never runs backwards that reading is not
  before any reading taken before the block and not after any reading taken after it.
\<close>

theorem add_then_list:
  assumes "t \<noteq> []"
  shows "case add_event_button d t x events w of
           (events', w', r) \<Rightarrow>
             daily_events d events'
               = daily_events d events
                 @ [\<lparr>title = t, description = x,
                     timestamp = isoformat (wall_clock w (clock_reads w))\<rparr>]
             \<and> wall_clock w' = wall_clock w
             \<and> clock_reads w' = Suc (clock_reads w)
             \<and> (clock_monotone w \<longrightarrow>
                  (\<forall>i < clock_reads w. dt_le (wall_clock w i) (wall_clock w (clock_reads w)))
                  \<and> (\<forall>j \<ge> clock_reads w'. dt_le (wall_clock w (clock_reads w)) (wall_clock w' j)))"
proof -
  obtain events' w' r where res: "add_event_button d t x events w = (events', w', r)"
    by (cases "add_event_button d t x events w")
  from add_event_button_events [OF assms, of d x events w] res
  have ev: "events' = AList.update (take 7 d)
             (AList.update d
                (daily_events d events
                 @ [\<lparr>title = t, description = x, timestamp = isoformat (wall_clock w (clock_reads w))\<rparr>])
                (month_of (take 7 d) events))
             events" by simp
  from add_event_button_world [OF assms, of d x events w] res
  have wc: "wall_clock w' = wall_clock w" and cr: "clock_reads w' = Suc (clock_reads w)" by simp_all
  have "daily_events d events' = daily_events d events
                 @ [\<lparr>title = t, description = x,
                     timestamp = isoformat (wall_clock w (clock_reads w))\<rparr>]"
    unfolding ev daily_events_lookup [of d "AList.update _ _ _"] lookup_day_update by simp
  moreover have "clock_monotone w \<longrightarrow>
                  (\<forall>i < clock_reads w. dt_le (wall_clock w i) (wall_clock w (clock_reads w)))
                  \<and> (\<forall>j \<ge> clock_reads w'. dt_le (wall_clock w (clock_reads w)) (wall_clock w' j))"
    by (simp add: clock_monotone_def wc cr)
  ultimately show ?thesis using res wc cr by simp
qed

text \<open>
  C5. With an empty title the add-event block shows the warning that a title is required and
  does nothing else: the document is the same, the file is not written, nothing is raised and
  the script goes on.
\<close>

theorem empty_title_rejected:
  "add_event_button d [] x events w
   = (events, w\<lparr>shown := shown w @ [St_warning MSG_TITLE_REQUIRED]\<rparr>, Fell_through)
   \<and> data_file (fst (snd (add_event_button d [] x events w))) = data_file w"
  by (simp add: add_event_button_def st_show_def)

text \<open>
  C10. With a non-empty title the add-event block changes nothing but the list of the selected
  date: every year-month key other than that of the selected date has the value from before,
  every date key other than the selected date has the list from before, under every year-month
  key, and the events already in the list of the selected date keep their positions and their
  contents.
\<close>

theorem add_event_frame:
  assumes "t \<noteq> []"
  shows "case add_event_button d t x events w of
           (events', w', r) \<Rightarrow>
             (\<forall>ym. ym \<noteq> take 7 d \<longrightarrow> map_of events' ym = map_of events ym)
             \<and> (\<forall>ym d'. d' \<noteq> d \<longrightarrow> lookup_day ym d' events' = lookup_day ym d' events)
             \<and> (\<forall>ym d'. ym \<noteq> take 7 d \<longrightarrow> lookup_day ym d' events' = lookup_day ym d' events)
             \<and> take (length (daily_events d events)) (daily_events d events') = daily_events d events
             \<and> (\<forall>i < length (daily_events d events).
                   daily_events d events' ! i = daily_events d events ! i)"
proof -
  obtain events' w' r where res: "add_event_button d t x events w = (events', w', r)"
    by (cases "add_event_button d t x events w")
  from add_event_button_events [OF assms, of d x events w] res
  have ev: "events' = AList.update (take 7 d)
             (AList.update d
                (daily_events d events
                 @ [\<lparr>title = t, description = x, timestamp = isoformat (wall_clock w (clock_reads w))\<rparr>])
                (month_of (take 7 d) events))
             events" by simp
  have a: "\<forall>ym. ym \<noteq> take 7 d \<longrightarrow> map_of events' ym = map_of events ym"
    by (simp add: ev update_conv')
  have b: "\<forall>ym d'. d' \<noteq> d \<longrightarrow> lookup_day ym d' events' = lookup_day ym d' events"
    unfolding ev lookup_day_update by simp
  have c: "\<forall>ym d'. ym \<noteq> take 7 d \<longrightarrow> lookup_day ym d' events' = lookup_day ym d' events"
    unfolding ev lookup_day_update by simp
  have d: "daily_events d events' = daily_events d events
                 @ [\<lparr>title = t, description = x,
                     timestamp = isoformat (wall_clock w (clock_reads w))\<rparr>]"
    unfolding ev daily_events_lookup [of d "AList.update _ _ _"] lookup_day_update by simp
  have e: "take (length (daily_events d events)) (daily_events d events') = daily_events d events"
    by (simp add: d)
  have f: "\<forall>i < length (daily_events d events).
                   daily_events d events' ! i = daily_events d events ! i"
    by (simp add: d nth_append)
  show ?thesis using res a b c e f by simp
qed


lemma del_index_out_of_range:
  "i < 0 - int (length xs) \<or> int (length xs) \<le> i \<Longrightarrow> del_index xs i = Inl IndexError"
  by (auto simp: del_index_def Let_def)

lemma del_index_in_range:
  "i < length xs \<Longrightarrow> del_index xs (int i) = Inr (take i xs @ drop (Suc i) xs)"
  by (simp add: del_index_def Let_def)

lemma del_index_Inl: "del_index xs i = Inl e \<Longrightarrow> e = IndexError"
  by (auto simp: del_index_def Let_def split: if_splits)

lemma delete_event_events:
  assumes "lookup_day (take 7 d) d events = Some l" and "del_index l i = Inr l'"
  shows "fst (delete_event d i events w) = pruned d l' events"
  using assms
  by (auto simp: delete_event_def lookup_day_def month_of_def pruned_def Let_def delete_update_same
      split: option.splits prod.splits)

lemma delete_event_cases:
  "fst (delete_event d i events w) = events
   \<or> (\<exists>l l'. lookup_day (take 7 d) d events = Some l \<and> del_index l i = Inr l'
        \<and> fst (delete_event d i events w) = pruned d l' events)"
proof (cases "lookup_day (take 7 d) d events")
  case None
  then show ?thesis
    by (auto simp: delete_event_def lookup_day_def split: option.splits)
next
  case (Some l)
  show ?thesis
  proof (cases "del_index l i")
    case (Inl e)
    with Some show ?thesis
      by (auto simp: delete_event_def lookup_day_def split: option.splits)
  next
    case (Inr l')
    with Some delete_event_events [OF Some Inr] show ?thesis by blast
  qed
qed

lemma delete_buttons_out_of_range:
  "k < int i \<or> int i + int (length es) \<le> k \<or> d' \<noteq> d \<Longrightarrow>
   delete_buttons iso_ok d (Some (d', k)) i es events w
   = (events, w, if \<forall>e \<in> set es. iso_ok (timestamp e) then Fell_through else Raised ValueError)"
  by (induction es arbitrary: i) auto

lemma delete_buttons_no_click:
  "delete_buttons iso_ok d None i es events w
   = (events, w, if \<forall>e \<in> set es. iso_ok (timestamp e) then Fell_through else Raised ValueError)"
  by (induction es arbitrary: i) auto

lemma delete_buttons_in_range:
  "i \<le> k \<Longrightarrow> k < i + length es \<Longrightarrow> \<forall>e \<in> set (take (Suc (k - i)) es). iso_ok (timestamp e) \<Longrightarrow>
   delete_buttons iso_ok d (Some (d, int k)) i es events w = delete_event d (int k) events w"
proof (induction es arbitrary: i)
  case Nil
  then show ?case by simp
next
  case (Cons e es)
  show ?case
  proof (cases "k = i")
    case True
    with Cons.prems show ?thesis by simp
  next
    case False
    with Cons.prems have i: "Suc i \<le> k" "k < Suc i + length es" by simp_all
    from False Cons.prems have sk: "Suc (k - i) = Suc (Suc (k - Suc i))" by simp
    from Cons.prems(3) have e: "iso_ok (timestamp e)"
      and es: "\<forall>e \<in> set (take (Suc (k - Suc i)) es). iso_ok (timestamp e)"
      unfolding sk by simp_all
    from Cons.IH [OF i es] False e show ?thesis by simp
  qed
qed

lemma delete_buttons_cases:
  "fst (delete_buttons iso_ok d c i es events w) = events
   \<or> (\<exists>k. fst (delete_buttons iso_ok d c i es events w) = fst (delete_event d k events w))"
  by (induction es arbitrary: i) auto


lemma set_update_subset: "set (AList.update k v al) \<subseteq> insert (k, v) (set al)"
  by (induction al) auto

lemma set_delete_subset: "set (AList.delete k al) \<subseteq> set al"
  by (auto simp: AList.delete_eq)

lemma delete_eq_Nil_iff: "AList.delete k al = [] \<longleftrightarrow> fst ` set al \<subseteq> {k}"
  by (auto simp: AList.delete_eq filter_empty_conv)

lemma month_of_mem: "month_of ym events \<noteq> [] \<Longrightarrow> (ym, month_of ym events) \<in> set events"
  by (auto simp: month_of_def split: option.splits dest: map_of_SomeD)

lemma no_empty_month_of:
  "no_empty_containers events \<Longrightarrow> (d, l) \<in> set (month_of ym events) \<Longrightarrow> l \<noteq> []"
  using month_of_mem [of ym events] by (fastforce simp: no_empty_containers_def)

lemma no_empty_update:
  assumes "no_empty_containers events" and "m \<noteq> []" and "\<forall>(d, l) \<in> set m. l \<noteq> []"
  shows "no_empty_containers (AList.update ym m events)"
  using assms set_update_subset [of ym m events]
  by (fastforce simp: no_empty_containers_def)

lemma no_empty_delete:
  assumes "no_empty_containers events"
  shows "no_empty_containers (AList.delete ym events)"
  using assms set_delete_subset [of ym events]
  by (fastforce simp: no_empty_containers_def)

lemma no_empty_pruned:
  assumes "no_empty_containers events"
  shows "no_empty_containers (pruned d l events)"
proof -
  let ?ym = "take 7 d"
  let ?m = "if l = [] then AList.delete d (month_of ?ym events)
            else AList.update d l (month_of ?ym events)"
  have days: "\<forall>(d', l') \<in> set ?m. l' \<noteq> []"
    using no_empty_month_of [OF assms, of _ _ ?ym]
      set_update_subset [of d l "month_of ?ym events"]
      set_delete_subset [of d "month_of ?ym events"]
    by (cases "l = []") auto
  show ?thesis
  proof (cases "?m = []")
    case True
    then show ?thesis using no_empty_delete [OF assms] by (simp add: pruned_def Let_def)
  next
    case False
    from no_empty_update [OF assms False days] False show ?thesis
      by (simp add: pruned_def Let_def)
  qed
qed

lemma no_empty_add:
  assumes "no_empty_containers events" and "t \<noteq> []"
  shows "no_empty_containers (fst (add_event_button d t x events w))"
proof -
  let ?l = "daily_events d events
            @ [\<lparr>title = t, description = x, timestamp = isoformat (wall_clock w (clock_reads w))\<rparr>]"
  have "\<forall>(d', l') \<in> set (AList.update d ?l (month_of (take 7 d) events)). l' \<noteq> []"
    using no_empty_month_of [OF assms(1), of _ _ "take 7 d"]
      set_update_subset [of d ?l "month_of (take 7 d) events"]
    by auto
  from no_empty_update [OF assms(1) _ this] show ?thesis
    by (simp add: add_event_button_events [OF assms(2)])
qed

lemma no_empty_add_any:
  assumes "no_empty_containers events"
  shows "no_empty_containers (fst (add_event_button d t x events w))"
proof (cases "t = []")
  case True
  with assms show ?thesis by (simp add: add_event_button_def)
next
  case False
  with assms show ?thesis by (rule no_empty_add)
qed

lemma no_empty_delete_event:
  assumes "no_empty_containers events"
  shows "no_empty_containers (fst (delete_event d i events w))"
  using delete_event_cases [of d i events w] assms no_empty_pruned [OF assms]
  by auto

lemma event_list_unfold:
  "event_list iso_ok d c events w
   = (if lookup_day (take 7 d) d events \<noteq> None \<and> daily_events d events \<noteq> []
      then delete_buttons iso_ok d c 0 (daily_events d events) events w
      else (events, st_show (St_info MSG_NO_EVENTS) w, Fell_through))"
  by (auto simp: event_list_def lookup_day_def py_in_def Let_def split: option.splits)

lemma no_empty_event_list:
  assumes "no_empty_containers events"
  shows "no_empty_containers (fst (event_list iso_ok d c events w))"
  using delete_buttons_cases [of iso_ok d c 0 "daily_events d events" events w]
    assms no_empty_delete_event [OF assms]
  by (auto simp: event_list_unfold)

lemma no_empty_store_step:
  assumes "no_empty_containers (fst s)"
  shows "no_empty_containers (fst (store_step iso_ok x s))"
proof (cases s)
  case (Pair events w)
  with assms have inv: "no_empty_containers events" by simp
  show ?thesis
  proof (cases x)
    case (Add_event d t y)
    with Pair no_empty_add_any [OF inv, of d t y w] show ?thesis
      by (auto split: prod.splits)
  next
    case (Delete_click d i)
    with Pair no_empty_event_list [OF inv, of iso_ok d "Some (d, i)" w] show ?thesis
      by (auto split: prod.splits)
  qed
qed

lemma no_empty_store_run:
  "no_empty_containers (fst s) \<Longrightarrow> no_empty_containers (fst (store_run iso_ok xs s))"
  by (induction xs arbitrary: s) (simp_all add: no_empty_store_step)


text \<open>
  C4. A click on a delete button whose position is negative or not below the length of the
  list of the selected date is the same as no click: the document is the same, the file is not
  written, and no \<open>IndexError\<close> or \<open>KeyError\<close> is raised. The page is drawn as without
  a click: it ends normally when every timestamp in the list can be shown.
\<close>

theorem delete_out_of_range:
  assumes "i < 0 \<or> int (length (daily_events d events)) \<le> i"
  shows "event_list iso_ok d (Some (d, i)) events w = event_list iso_ok d None events w
       \<and> (case event_list iso_ok d (Some (d, i)) events w of
             (events', w', r) \<Rightarrow>
               events' = events \<and> data_file w' = data_file w
               \<and> w' = (if daily_events d events = [] then st_show (St_info MSG_NO_EVENTS) w else w)
               \<and> r = (if \<forall>e \<in> set (daily_events d events). iso_ok (timestamp e)
                      then Fell_through else Raised ValueError))"
proof (cases "daily_events d events = []")
  case True
  then show ?thesis by (simp add: event_list_unfold st_show_def)
next
  case False
  then have look: "lookup_day (take 7 d) d events \<noteq> None"
    by (auto simp: daily_events_lookup split: option.splits)
  from assms have "i < int 0 \<or> int 0 + int (length (daily_events d events)) \<le> i \<or> d \<noteq> d"
    by simp
  from delete_buttons_out_of_range [OF this, of iso_ok events w] False look show ?thesis
    by (simp add: event_list_unfold delete_buttons_no_click)
qed

theorem delete_out_of_range_witness:
  "((1::int) < 0 \<or> int (length (daily_events (py ''2024-03-15'') example_doc)) \<le> 1)
   \<and> event_list (\<lambda>s. True) (py ''2024-03-15'') (Some (py ''2024-03-15'', 1)) example_doc example_world
     = (example_doc, example_world, Fell_through)"
proof -
  have l: "daily_events (py ''2024-03-15'') example_doc = [example_event]"
    by (simp add: daily_events_def example_doc_def py_def)
  have h: "(1::int) < 0 \<or> int (length (daily_events (py ''2024-03-15'') example_doc)) \<le> 1"
    by (simp add: l)
  from delete_out_of_range [OF h, of "\<lambda>s. True" example_world] h show ?thesis
    by (auto simp: l split: prod.splits)
qed

text \<open>
  C3. When the only event of a date is deleted, the date key is gone from its year-month dict,
  a year-month dict that is still there is not empty, and when no other date was under the
  year-month key, that key is gone too. A document without empty containers has none after any
  sequence of additions and deletions, and so has every document that such a sequence makes of
  the empty document.
\<close>

theorem pruning:
  "(daily_events d events = [e] \<and> iso_ok (timestamp e) \<longrightarrow>
      (case event_list iso_ok d (Some (d, 0)) events w of
         (events', w', r) \<Rightarrow>
           lookup_day (take 7 d) d events' = None
           \<and> (case map_of events' (take 7 d) of
                 None \<Rightarrow> True | Some m \<Rightarrow> m \<noteq> [] \<and> \<not> py_in d m)
           \<and> ((\<forall>d'. d' \<noteq> d \<longrightarrow> lookup_day (take 7 d) d' events = None)
                \<longrightarrow> \<not> py_in (take 7 d) events')))
   \<and> (no_empty_containers events \<longrightarrow>
        no_empty_containers (fst (store_run iso_ok ops (events, w))))
   \<and> no_empty_containers (fst (store_run iso_ok ops ([], w)))"
proof -
  have a: "lookup_day (take 7 d) d events' = None
           \<and> (case map_of events' (take 7 d) of
                 None \<Rightarrow> True | Some m \<Rightarrow> m \<noteq> [] \<and> \<not> py_in d m)
           \<and> ((\<forall>d'. d' \<noteq> d \<longrightarrow> lookup_day (take 7 d) d' events = None)
                \<longrightarrow> \<not> py_in (take 7 d) events')"
    if one: "daily_events d events = [e]" and ok: "iso_ok (timestamp e)"
      and res: "event_list iso_ok d (Some (d, 0)) events w = (events', w', r)"
    for events' w' r
  proof -
    from one have look: "lookup_day (take 7 d) d events = Some [e]"
      by (simp add: daily_events_lookup split: option.splits)
    have "delete_buttons iso_ok d (Some (d, 0)) 0 [e] events w = delete_event d 0 events w"
      using ok by simp
    with res one look have "delete_event d 0 events w = (events', w', r)"
      by (simp add: event_list_unfold)
    then have "events' = fst (delete_event d 0 events w)"
      by simp
    also have "\<dots> = pruned d [] events"
      by (rule delete_event_events [OF look]) (simp add: del_index_def)
    finally have ev: "events' = pruned d [] events" .
    let ?m = "month_of (take 7 d) events"
    have m: "map_of events (take 7 d) = Some ?m"
      using look by (simp add: lookup_day_def month_of_def split: option.splits)
    show ?thesis
    proof (cases "AList.delete d ?m = []")
      case True
      then have "events' = AList.delete (take 7 d) events"
        by (simp add: ev pruned_def Let_def)
      then show ?thesis
        by (simp add: lookup_day_def delete_conv' py_in_def)
    next
      case False
      then have e': "events' = AList.update (take 7 d) (AList.delete d ?m) events"
        by (simp add: ev pruned_def Let_def)
      from False obtain d' where d': "d' \<in> fst ` set ?m" "d' \<noteq> d"
        by (auto simp: delete_eq_Nil_iff)
      then have "map_of ?m d' \<noteq> None" by (simp add: map_of_eq_None_iff)
      with m d' have "d' \<noteq> d \<and> lookup_day (take 7 d) d' events \<noteq> None"
        by (simp add: lookup_day_def)
      with False show ?thesis
        by (auto simp: e' lookup_day_def update_conv' delete_conv' py_in_def)
    qed
  qed
  have b: "no_empty_containers events \<longrightarrow>
        no_empty_containers (fst (store_run iso_ok ops (events, w)))"
    using no_empty_store_run [of "(events, w)" iso_ok ops] by simp
  have c: "no_empty_containers (fst (store_run iso_ok ops ([], w)))"
    using no_empty_store_run [of "([], w)" iso_ok ops] by (simp add: no_empty_containers_def)
  from a b c show ?thesis by (auto split: prod.splits)
qed


lemma py_nonempty: "py ''Meeting'' \<noteq> []"
  by (simp add: py_def)

lemma example_isoformat: "isoformat (example_clock 3) = py ''2024-03-01T09:05:07.000003''"
  by code_simp

lemma example_clock_monotone: "clock_monotone example_world"
  by (simp add: clock_monotone_def example_world_def example_clock_def dt_le_def)

lemma example_add:
  "fst (add_event_button (py ''2024-03-15'') (py ''Meeting'') (py ''Standup'') [] example_world)
   = example_doc"
  by (simp add: add_event_button_events [OF py_nonempty] example_isoformat example_doc_def
      example_event_def daily_events_def month_of_def example_world_def)
     (simp add: py_def)

lemma example_daily: "daily_events (py ''2024-03-15'') example_doc = [example_event]"
  by (simp add: daily_events_def example_doc_def py_def)

theorem add_then_list_witness:
  "py ''Meeting'' \<noteq> [] \<and> clock_monotone example_world
   \<and> daily_events (py ''2024-03-15'')
        (fst (add_event_button (py ''2024-03-15'') (py ''Meeting'') (py ''Standup'') []
                example_world))
      = [\<lparr>title = py ''Meeting'', description = py ''Standup'',
          timestamp = py ''2024-03-01T09:05:07.000003''\<rparr>]
   \<and> dt_le (example_clock 2) (example_clock 3) \<and> dt_le (example_clock 3) (example_clock 4)"
  using add_then_list [OF py_nonempty, where d = "py ''2024-03-15''" and x = "py ''Standup''"
      and events = "[]" and w = example_world]
    example_clock_monotone py_nonempty
  by (auto simp: example_isoformat example_world_def daily_events_def split: prod.splits)

theorem add_event_frame_witness:
  "py ''Meeting'' \<noteq> []
   \<and> map_of (fst (add_event_button (py ''2024-04-01'') (py ''Meeting'') [] example_doc example_world))
        (py ''2024-03'') = map_of example_doc (py ''2024-03'')
   \<and> lookup_day (py ''2024-03'') (py ''2024-03-15'')
        (fst (add_event_button (py ''2024-04-01'') (py ''Meeting'') [] example_doc example_world))
      = Some [example_event]
   \<and> take 1 (daily_events (py ''2024-03-15'')
        (fst (add_event_button (py ''2024-03-15'') (py ''Meeting'') [] example_doc example_world)))
      = [example_event]"
proof -
  have ne: "py ''2024-03'' \<noteq> take 7 (py ''2024-04-01'')" "py ''2024-03-15'' \<noteq> py ''2024-04-01''"
    by (simp_all add: py_def)
  have look: "lookup_day (py ''2024-03'') (py ''2024-03-15'') example_doc = Some [example_event]"
    by (simp add: lookup_day_def example_doc_def)
  from add_event_frame [OF py_nonempty, where d = "py ''2024-04-01''" and x = "[]"
      and events = example_doc and w = example_world]
    add_event_frame [OF py_nonempty, where d = "py ''2024-03-15''" and x = "[]"
      and events = example_doc and w = example_world]
    ne look py_nonempty example_daily
  show ?thesis by (auto split: prod.splits)
qed

theorem empty_title_rejected_witness:
  "add_event_button (py ''2024-03-15'') [] (py ''Standup'') example_doc example_world
   = (example_doc,
      \<lparr>data_file = None, shown = [St_warning MSG_TITLE_REQUIRED], wall_clock = example_clock,
        clock_reads = 3\<rparr>, Fell_through)"
  using empty_title_rejected [where d = "py ''2024-03-15''" and x = "py ''Standup''"
      and events = example_doc and w = example_world]
  by (simp add: example_world_def)

lemma example_delete:
  "fst (event_list (\<lambda>s. True) (py ''2024-03-15'') (Some (py ''2024-03-15'', 0)) example_doc w) = []"
proof -
  have look: "lookup_day (take 7 (py ''2024-03-15'')) (py ''2024-03-15'') example_doc
              = Some [example_event]"
    by (simp add: lookup_day_def example_doc_def py_def)
  have "fst (delete_event (py ''2024-03-15'') 0 example_doc w)
        = pruned (py ''2024-03-15'') [] example_doc"
    by (rule delete_event_events [OF look]) (simp add: del_index_def)
  also have "\<dots> = []"
    by (simp add: pruned_def month_of_def example_doc_def py_def)
  finally show ?thesis
    using look by (simp add: event_list_unfold example_daily)
qed

theorem pruning_witness:
  "daily_events (py ''2024-03-15'') example_doc = [example_event]
   \<and> fst (event_list (\<lambda>s. True) (py ''2024-03-15'') (Some (py ''2024-03-15'', 0)) example_doc
             example_world) = []
   \<and> \<not> py_in (py ''2024-03'') ([] :: document)
   \<and> no_empty_containers example_doc
   \<and> no_empty_containers (fst (store_run (\<lambda>s. True)
        [Add_event (py ''2024-03-15'') (py ''Meeting'') (py ''Standup''),
         Delete_click (py ''2024-03-15'') 0] ([], example_world)))"
  using pruning [where d = "py ''2024-03-15''" and events = example_doc and e = example_event
      and iso_ok = "\<lambda>s. True" and w = example_world
      and ops = "[Add_event (py ''2024-03-15'') (py ''Meeting'') (py ''Standup''),
         Delete_click (py ''2024-03-15'') 0]"]
    example_daily example_delete [of example_world]
  by (simp add: py_in_def) (simp add: no_empty_containers_def example_doc_def example_event_def)

section \<open>Persistence theorems\<close>

subsection \<open>Strings, white space and UTF-8\<close>

lemma hex_value_hex_digit: "d < 16 \<Longrightarrow> hex_value (hex_digit d) = Some d"
  by (simp add: hex_value_def hex_digit_def)

lemma scanstring_escape_char:
  "scanstring (escape_char c @ s) = scanned_cons c (scanstring s)"
proof -
  consider "c = 0x5C" | "c = 0x22" | "c = 0x08" | "c = 0x0C" | "c = 0x0A" | "c = 0x0D"
    | "c = 0x09" | "c < 0x20" "c \<noteq> 0x08" "c \<noteq> 0x0C" "c \<noteq> 0x0A" "c \<noteq> 0x0D" "c \<noteq> 0x09"
    | "c \<ge> 0x20" "c \<noteq> 0x5C" "c \<noteq> 0x22"
    by linarith
  then show ?thesis
  proof cases
    case 8
    then have d: "c div 16 < 16" "c mod 16 < 16" by simp_all
    have v: "c div 16 * 16 + c mod 16 = c" by simp
    from 8 have e: "escape_char c = [0x5C, 0x75, 0x30, 0x30, hex_digit (c div 16), hex_digit (c mod 16)]"
      by (simp add: escape_char_def py_def)
    have z: "hex_value 0x30 = Some 0" by (simp add: hex_value_def)
    have "decode_uXXXX (0x30 # 0x30 # hex_digit (c div 16) # hex_digit (c mod 16) # s) = Some c"
      using v by (simp add: hex_value_hex_digit d z)
    with 8 show ?thesis by (simp add: e)
  qed (simp_all add: escape_char_def py_def BACKSLASH_def)
qed

lemma scanstring_escaped:
  "scanstring (concat (map escape_char str) @ 0x22 # rest) = Some (str, rest)"
  by (induction str) (simp_all add: scanstring_escape_char scanned_cons_def)

lemma encode_basestring_Cons:
  "encode_basestring str @ rest = 0x22 # concat (map escape_char str) @ 0x22 # rest"
  by (simp add: encode_basestring_def)

lemma length_encode_basestring: "2 \<le> length (encode_basestring str)"
  by (simp add: encode_basestring_def)

lemma skip_ws_all: "\<forall>c \<in> set ws. is_ws c \<Longrightarrow> skip_ws (ws @ s) = skip_ws s"
  by (simp add: skip_ws_def dropWhile_append2)

lemma skip_ws_stop: "\<not> is_ws c \<Longrightarrow> skip_ws (c # s) = c # s"
  by (simp add: skip_ws_def)

lemma is_ws_newline_indent: "\<forall>c \<in> set (newline_indent lvl). is_ws c"
  by (simp add: newline_indent_def is_ws_def)

lemma skip_ws_newline_indent: "skip_ws (newline_indent lvl @ s) = skip_ws s"
  by (rule skip_ws_all) (rule is_ws_newline_indent)

lemma update_append_new: "k \<notin> fst ` set al \<Longrightarrow> AList.update k v al = al @ [(k, v)]"
  by (induction al) auto

lemma foldl_update_distinct:
  "distinct (map fst (acc @ ps)) \<Longrightarrow>
   foldl (\<lambda>d (k, v). AList.update k v d) acc ps = acc @ ps"
proof (induction ps arbitrary: acc)
  case Nil
  then show ?case by simp
next
  case (Cons p ps)
  obtain k v where p: "p = (k, v)" by (cases p)
  from Cons.prems p have new: "k \<notin> fst ` set acc" by auto
  from Cons.prems p have "distinct (map fst ((acc @ [(k, v)]) @ ps))" by simp
  from Cons.IH [OF this] show ?case
    by (simp add: p update_append_new [OF new])
qed

lemma dict_distinct: "distinct (map fst ps) \<Longrightarrow> dict ps = ps"
  using foldl_update_distinct [of "[]" ps] by (simp add: dict_def)

lemma split_three:
  obtains a b r :: nat where "c = a * 4096 + b * 64 + r" "b < 64" "r < 64"
    "c div 4096 = a" "c div 64 mod 64 = b" "c mod 64 = r"
proof -
  have q: "c div 64 div 64 = c div 4096"
    by (simp add: div_mult2_eq [symmetric])
  have "c div 64 div 64 * 64 + c div 64 mod 64 = c div 64"
    by (rule div_mult_mod_eq)
  then have "(c div 4096 * 64 + c div 64 mod 64) * 64 + c mod 64 = c div 64 * 64 + c mod 64"
    by (simp only: q)
  also have "\<dots> = c" by (rule div_mult_mod_eq)
  finally have "c = (c div 4096 * 64 + c div 64 mod 64) * 64 + c mod 64" by (rule sym)
  then have "c = c div 4096 * 4096 + c div 64 mod 64 * 64 + c mod 64" by simp
  then show ?thesis by (rule that) simp_all
qed

lemma split_four:
  obtains a b d r :: nat where "c = a * 262144 + b * 4096 + d * 64 + r" "b < 64" "d < 64" "r < 64"
    "c div 262144 = a" "c div 4096 mod 64 = b" "c div 64 mod 64 = d" "c mod 64 = r"
proof -
  obtain a' d r where c: "c = a' * 4096 + d * 64 + r" "d < 64" "r < 64"
    "c div 4096 = a'" "c div 64 mod 64 = d" "c mod 64 = r"
    by (rule split_three)
  define q where "q = a' div 64"
  define m where "m = a' mod 64"
  have a': "a' = q * 64 + m" by (simp add: q_def m_def)
  have m: "m < 64" by (simp add: m_def)
  have "a' * 4096 = q * 262144 + m * 4096"
    unfolding a' by (simp add: add_mult_distrib)
  with c(1) have 1: "c = q * 262144 + m * 4096 + d * 64 + r" by simp
  have "c div 4096 div 64 = c div 262144"
    by (simp add: div_mult2_eq [symmetric])
  with c(4) have 2: "c div 262144 = q" by (simp add: q_def)
  from c(4) have 3: "c div 4096 mod 64 = m" by (simp add: m_def)
  from 1 m c(2,3) 2 3 c(5,6) show ?thesis by (rule that)
qed

lemma utf8_decode_encode_cp:
  assumes "utf8_encode_cp c = Inr bs"
  shows "utf8_decode (bs @ rest) = decoded_cons c (utf8_decode rest)"
proof -
  consider "c < 0x80" | "0x80 \<le> c" "c < 0x800" | "0x800 \<le> c" "c < 0xD800"
    | "0xD800 \<le> c" "c \<le> 0xDFFF" | "0xE000 \<le> c" "c < 0x10000"
    | "0x10000 \<le> c" "c < 0x110000" | "0x110000 \<le> c"
    by linarith
  then show ?thesis
  proof cases
    case 1
    with assms show ?thesis by (auto simp: utf8_encode_cp_def)
  next
    case 2
    then have bs: "bs = [0xC0 + c div 64, 0x80 + c mod 64]"
      using assms by (auto simp: utf8_encode_cp_def)
    from 2 have r: "2 \<le> c div 64" "c div 64 < 32"
      by (simp_all add: less_eq_div_iff_mult_less_eq div_less_iff_less_mult)
    have v: "c div 64 * 64 + c mod 64 = c" by simp
    have m: "c mod 64 \<le> 63" using mod_less_divisor [of 64 c] by linarith
    from r v m show ?thesis by (simp add: bs continuation_def)
  next
    case 3
    then have bs: "bs = [0xE0 + c div 4096, 0x80 + c div 64 mod 64, 0x80 + c mod 64]"
      using assms by (auto simp: utf8_encode_cp_def)
    obtain a b r where c: "c = a * 4096 + b * 64 + r" "b < 64" "r < 64"
      "c div 4096 = a" "c div 64 mod 64 = b" "c mod 64 = r"
      by (rule split_three)
    from 3 c(1,2,3) have a: "a < 14" by linarith
    from 3 c(1,2,3) have lo: "a = 0 \<longrightarrow> 32 \<le> b" by linarith
    from 3 c(1,2,3) have hi: "a = 13 \<longrightarrow> b \<le> 31" by linarith
    from c(1) have v: "a * 4096 + b * 64 + r = c" by simp
    from a lo hi v c(2,3) show ?thesis
      by (simp add: bs c(4,5,6) continuation_def)
  next
    case 4
    with assms show ?thesis by (auto simp: utf8_encode_cp_def)
  next
    case 5
    then have bs: "bs = [0xE0 + c div 4096, 0x80 + c div 64 mod 64, 0x80 + c mod 64]"
      using assms by (auto simp: utf8_encode_cp_def)
    obtain a b r where c: "c = a * 4096 + b * 64 + r" "b < 64" "r < 64"
      "c div 4096 = a" "c div 64 mod 64 = b" "c mod 64 = r"
      by (rule split_three)
    from 5 c(1,2,3) have a: "14 \<le> a" "a < 16" by linarith+
    from c(1) have v: "a * 4096 + b * 64 + r = c" by simp
    from a v c(2,3) show ?thesis
      by (simp add: bs c(4,5,6) continuation_def)
  next
    case 6
    then have bs: "bs = [0xF0 + c div 262144, 0x80 + c div 4096 mod 64, 0x80 + c div 64 mod 64,
                         0x80 + c mod 64]"
      using assms by (auto simp: utf8_encode_cp_def)
    obtain a b d r where c: "c = a * 262144 + b * 4096 + d * 64 + r" "b < 64" "d < 64" "r < 64"
      "c div 262144 = a" "c div 4096 mod 64 = b" "c div 64 mod 64 = d" "c mod 64 = r"
      by (rule split_four)
    from 6 c(1,2,3,4) have a: "a < 5" by linarith
    from 6 c(1,2,3,4) have lo: "a = 0 \<longrightarrow> 16 \<le> b" by linarith
    from 6 c(1,2,3,4) have hi: "a = 4 \<longrightarrow> b \<le> 15" by linarith
    from c(1) have v: "a * 262144 + b * 4096 + d * 64 + r = c" by simp
    from a lo hi v c(2,3,4) show ?thesis
      by (simp add: bs c(5,6,7,8) continuation_def)
  next
    case 7
    with assms show ?thesis by (auto simp: utf8_encode_cp_def)
  qed
qed

lemma utf8_decode_encode: "utf8_encode s = Inr bs \<Longrightarrow> utf8_decode bs = Inr s"
proof (induction s arbitrary: bs)
  case Nil
  then show ?case by simp
next
  case (Cons c s)
  from Cons.prems obtain b1 b2 where b: "utf8_encode_cp c = Inr b1" "utf8_encode s = Inr b2"
    "bs = b1 @ b2"
    by (auto split: sum.splits)
  from utf8_decode_encode_cp [OF b(1), of b2] Cons.IH [OF b(2)] b(3) show ?case
    by (simp add: decoded_cons_def)
qed

lemma utf8_encode_cp_bytes: "utf8_encode_cp c = Inr bs \<Longrightarrow> \<forall>b \<in> set bs. b < 256"
  by (auto simp: utf8_encode_cp_def split: if_splits)

lemma utf8_encode_bytes: "utf8_encode s = Inr bs \<Longrightarrow> \<forall>b \<in> set bs. b < 256"
proof (induction s arbitrary: bs)
  case Nil
  then show ?case by simp
next
  case (Cons c s)
  from Cons.prems obtain b1 b2 where b: "utf8_encode_cp c = Inr b1" "utf8_encode s = Inr b2"
    "bs = b1 @ b2"
    by (auto split: sum.splits)
  from utf8_encode_cp_bytes [OF b(1)] Cons.IH [OF b(2)] b(3) show ?case by auto
qed

lemma of_char_char_of_bytes:
  "\<forall>b \<in> set bs. b < 256 \<Longrightarrow> map of_char (map char_of bs) = (bs :: nat list)"
  by (induction bs) simp_all

lemma utf8_encode_append:
  "utf8_encode (a @ b) =
     (case utf8_encode a of
        Inl e \<Rightarrow> Inl e
      | Inr x \<Rightarrow> (case utf8_encode b of Inl e \<Rightarrow> Inl e | Inr y \<Rightarrow> Inr (x @ y)))"
  by (induction a) (auto split: sum.splits)

lemma write_chunks_ok:
  "utf8_encode (concat cs) = Inr bs \<Longrightarrow> write_chunks cs written = (written @ bs, None)"
proof (induction cs arbitrary: written bs)
  case Nil
  then show ?case by simp
next
  case (Cons c cs)
  from Cons.prems obtain b1 b2 where b: "utf8_encode c = Inr b1" "utf8_encode (concat cs) = Inr b2"
    "bs = b1 @ b2"
    by (auto simp: utf8_encode_append split: sum.splits)
  from Cons.IH [OF b(2), of "written @ b1"] b show ?case by simp
qed

subsection \<open>Reading back what the encoder writes\<close>

lemma decodesD_scan:
  "decodes enc J v \<Longrightarrow> length (concat (enc v lvl)) < n \<Longrightarrow>
   scan_once n (concat (enc v lvl) @ rest) = Scanned (J v) rest"
  by (simp add: decodes_def)

lemma decodesD_skip:
  assumes "decodes enc J v"
  shows "skip_ws (concat (enc v lvl) @ rest) = concat (enc v lvl) @ rest"
proof -
  from assms obtain c t where "concat (enc v lvl) = c # t" "\<not> is_ws c"
    unfolding decodes_def by blast
  then show ?thesis by (simp add: skip_ws_stop)
qed

lemma decodes_str: "decodes iterencode_str JStr s"
proof -
  have scan: "scan_once n (encode_basestring s @ rest) = Scanned (JStr s) rest"
    if "length (encode_basestring s) < n" for n rest
  proof -
    from that obtain m where n: "n = Suc m" by (cases n) simp_all
    show ?thesis
      by (simp add: n encode_basestring_Cons scanstring_escaped)
  qed
  have "\<exists>c t. encode_basestring s = c # t \<and> \<not> is_ws c \<and> c \<noteq> 0x5D"
    by (simp add: encode_basestring_def is_ws_def)
  with scan show ?thesis
    by (simp add: decodes_def iterencode_str_def)
qed

lemma items_False:
  "concat (iterencode_items enc False lvl ((k, v) # kvs))
   = 0x2C # newline_indent lvl @ 0x22 # concat (map escape_char k) @ 0x22 # 0x3A # 0x20
     # concat (enc v lvl) @ concat (iterencode_items enc False lvl kvs)"
  by (simp add: py_def encode_basestring_def)

lemma items_True:
  "concat (iterencode_items enc True lvl ((k, v) # kvs))
   = 0x22 # concat (map escape_char k) @ 0x22 # 0x3A # 0x20
     # concat (enc v lvl) @ concat (iterencode_items enc False lvl kvs)"
  by (simp add: py_def encode_basestring_def)

lemma JSONObject_loop:
  assumes "\<forall>v \<in> snd ` set ((k, v0) # kvs). decodes enc J v" and "\<forall>c \<in> set ws. is_ws c"
    and "Suc (length (concat (enc v0 lvl)) + length (concat (iterencode_items enc False lvl kvs))) < n"
  shows "JSONObject n pairs
           (concat (map escape_char k) @ 0x22 # 0x3A # 0x20 # concat (enc v0 lvl)
            @ concat (iterencode_items enc False lvl kvs) @ ws @ 0x7D # rest)
         = Scanned (JObj (dict (pairs @ map (\<lambda>(k, v). (k, J v)) ((k, v0) # kvs)))) rest"
  using assms
proof (induction kvs arbitrary: k v0 pairs n)
  case Nil
  from Nil.prems(3) obtain m where n: "n = Suc m" by (cases n) simp_all
  from Nil.prems(1) have dec: "decodes enc J v0" by simp
  from Nil.prems(3) n have fuel: "length (concat (enc v0 lvl)) < m" by simp
  have colon: "skip_ws (0x3A # s) = 0x3A # s" for s
    by (rule skip_ws_stop) (simp add: is_ws_def)
  have blank: "skip_ws (0x20 # s) = skip_ws s" for s
    by (simp add: skip_ws_def is_ws_def)
  have close: "skip_ws (ws @ 0x7D # rest) = 0x7D # rest"
    by (simp add: skip_ws_all [OF Nil.prems(2)] skip_ws_stop is_ws_def)
  show ?case
    by (simp add: n scanstring_escaped colon blank decodesD_skip [OF dec]
        decodesD_scan [OF dec fuel] close)
next
  case (Cons p kvs)
  obtain k2 v2 where p: "p = (k2, v2)" by (cases p)
  from Cons.prems(3) obtain m where n: "n = Suc m" by (cases n) simp_all
  from Cons.prems(1) have dec: "decodes enc J v0" by simp
  from Cons.prems(3) n have fuel: "length (concat (enc v0 lvl)) < m" by simp
  have colon: "skip_ws (0x3A # s) = 0x3A # s" for s
    by (rule skip_ws_stop) (simp add: is_ws_def)
  have blank: "skip_ws (0x20 # s) = skip_ws s" for s
    by (simp add: skip_ws_def is_ws_def)
  have comma: "skip_ws (0x2C # s) = 0x2C # s" for s
    by (rule skip_ws_stop) (simp add: is_ws_def)
  have quote: "skip_ws (newline_indent lvl @ 0x22 # s) = 0x22 # s" for s
    by (simp add: skip_ws_newline_indent skip_ws_stop is_ws_def)
  from Cons.prems(1) p have decs: "\<forall>v \<in> snd ` set ((k2, v2) # kvs). decodes enc J v"
    by simp
  from Cons.prems(3) n p
  have fuel2: "Suc (length (concat (enc v2 lvl))
                 + length (concat (iterencode_items enc False lvl kvs))) < m"
    by (simp add: items_False del: iterencode_items.simps)
  note IH = Cons.IH [where pairs = "pairs @ [(k, J v0)]", OF decs Cons.prems(2) fuel2]
  show ?case
    by (simp add: n p items_False scanstring_escaped colon blank decodesD_skip [OF dec]
        decodesD_scan [OF dec fuel] comma quote IH del: iterencode_items.simps)
qed

lemma map_fst_json: "map fst (map (\<lambda>(k, v). (k, J v)) dct) = map fst dct"
  by (induction dct) auto

lemma decodes_dict:
  assumes "\<forall>v \<in> snd ` set dct. decodes enc J v" and "distinct (map fst dct)"
  shows "decodes (iterencode_dict enc) (\<lambda>d. JObj (map (\<lambda>(k, v). (k, J v)) d)) dct"
proof (cases dct)
  case Nil
  have "scan_once n (0x7B # 0x7D # rest) = Scanned (JObj []) rest" if "2 < n" for n rest
  proof -
    from that obtain m where n: "n = Suc m" by (cases n) simp_all
    show ?thesis by (simp add: n skip_ws_stop is_ws_def)
  qed
  then show ?thesis
    by (simp add: decodes_def iterencode_dict_def Nil py_def is_ws_def)
next
  case (Cons p kvs)
  obtain k v0 where p: "p = (k, v0)" by (cases p)
  let ?J = "\<lambda>d. JObj (map (\<lambda>(k, v). (k, J v)) d)"
  have shape: "concat (iterencode_dict enc dct lvl)
              = 0x7B # newline_indent (Suc lvl) @ 0x22 # concat (map escape_char k) @ 0x22
                # 0x3A # 0x20 # concat (enc v0 (Suc lvl))
                @ concat (iterencode_items enc False (Suc lvl) kvs) @ newline_indent lvl @ [0x7D]"
    for lvl
    by (simp add: iterencode_dict_def Cons p items_True py_def del: iterencode_items.simps)
  have scan: "scan_once n (concat (iterencode_dict enc dct lvl) @ rest) = Scanned (?J dct) rest"
    if "length (concat (iterencode_dict enc dct lvl)) < n" for n lvl rest
  proof -
    from that obtain m where n: "n = Suc m" by (cases n) simp_all
    from that n
    have fuel: "Suc (length (concat (enc v0 (Suc lvl)))
                  + length (concat (iterencode_items enc False (Suc lvl) kvs))) < m"
      by (simp add: shape)
    from assms(1) Cons p have decs: "\<forall>v \<in> snd ` set ((k, v0) # kvs). decodes enc J v"
      by simp
    have quote: "skip_ws (newline_indent (Suc lvl) @ 0x22 # s) = 0x22 # s" for s
      by (simp add: skip_ws_newline_indent skip_ws_stop is_ws_def)
    note loop = JSONObject_loop [where ws = "newline_indent lvl" and pairs = "[]" and rest = rest,
        OF decs is_ws_newline_indent fuel]
    have d: "dict (map (\<lambda>(k, v). (k, J v)) dct) = map (\<lambda>(k, v). (k, J v)) dct"
      by (rule dict_distinct) (simp only: map_fst_json assms(2))
    from loop d show ?thesis
      unfolding shape by (simp add: n quote Cons p)
  qed
  have "\<exists>c t. concat (iterencode_dict enc dct lvl) = c # t \<and> \<not> is_ws c \<and> c \<noteq> 0x5D" for lvl
    by (simp add: shape is_ws_def)
  with scan show ?thesis
    unfolding decodes_def by blast
qed

lemma elems_False:
  "concat (iterencode_elems enc False lvl (v # vs))
   = 0x2C # newline_indent lvl @ concat (enc v lvl) @ concat (iterencode_elems enc False lvl vs)"
  by (simp add: py_def)

lemma elems_True:
  "concat (iterencode_elems enc True lvl (v # vs))
   = 0x5B # newline_indent lvl @ concat (enc v lvl) @ concat (iterencode_elems enc False lvl vs)"
  by (simp add: py_def)

lemma JSONArray_loop:
  assumes "\<forall>v \<in> set (v0 # vs). decodes enc J v" and "\<forall>c \<in> set ws. is_ws c"
    and "Suc (length (concat (enc v0 lvl)) + length (concat (iterencode_elems enc False lvl vs))) < n"
  shows "JSONArray n acc
           (concat (enc v0 lvl) @ concat (iterencode_elems enc False lvl vs) @ ws @ 0x5D # rest)
         = Scanned (JArr (acc @ map J (v0 # vs))) rest"
  using assms
proof (induction vs arbitrary: v0 acc n)
  case Nil
  from Nil.prems(3) obtain m where n: "n = Suc m" by (cases n) simp_all
  from Nil.prems(1) have dec: "decodes enc J v0" by simp
  from Nil.prems(3) n have fuel: "length (concat (enc v0 lvl)) < m" by simp
  have close: "skip_ws (ws @ 0x5D # rest) = 0x5D # rest"
    by (simp add: skip_ws_all [OF Nil.prems(2)] skip_ws_stop is_ws_def)
  show ?case
    by (simp add: n decodesD_scan [OF dec fuel] close)
next
  case (Cons v2 vs)
  from Cons.prems(3) obtain m where n: "n = Suc m" by (cases n) simp_all
  from Cons.prems(1) have dec: "decodes enc J v0" and dec2: "decodes enc J v2" by simp_all
  from Cons.prems(3) n have fuel: "length (concat (enc v0 lvl)) < m" by simp
  have comma: "skip_ws (0x2C # s) = 0x2C # s" for s
    by (rule skip_ws_stop) (simp add: is_ws_def)
  have next_elem: "skip_ws (newline_indent lvl @ concat (enc v2 lvl) @ s) = concat (enc v2 lvl) @ s"
    for s
    by (simp add: skip_ws_newline_indent decodesD_skip [OF dec2])
  from Cons.prems(1) have decs: "\<forall>v \<in> set (v2 # vs). decodes enc J v" by simp
  from Cons.prems(3) n
  have fuel2: "Suc (length (concat (enc v2 lvl))
                 + length (concat (iterencode_elems enc False lvl vs))) < m"
    by (simp add: elems_False del: iterencode_elems.simps)
  note IH = Cons.IH [where acc = "acc @ [J v0]", OF decs Cons.prems(2) fuel2]
  show ?case
    by (simp add: n elems_False decodesD_scan [OF dec fuel] comma next_elem IH
        del: iterencode_elems.simps)
qed

lemma decodes_list:
  assumes "\<forall>v \<in> set lst. decodes enc J v"
  shows "decodes (iterencode_list enc) (\<lambda>l. JArr (map J l)) lst"
proof (cases lst)
  case Nil
  have "scan_once n (0x5B # 0x5D # rest) = Scanned (JArr []) rest" if "2 < n" for n rest
  proof -
    from that obtain m where n: "n = Suc m" by (cases n) simp_all
    show ?thesis by (simp add: n skip_ws_stop is_ws_def)
  qed
  then show ?thesis
    by (simp add: decodes_def iterencode_list_def Nil py_def is_ws_def)
next
  case (Cons v0 vs)
  have shape: "concat (iterencode_list enc lst lvl)
               = 0x5B # newline_indent (Suc lvl) @ concat (enc v0 (Suc lvl))
                 @ concat (iterencode_elems enc False (Suc lvl) vs) @ newline_indent lvl @ [0x5D]"
    for lvl
    by (simp add: iterencode_list_def Cons elems_True py_def del: iterencode_elems.simps)
  from assms Cons have dec: "decodes enc J v0" and decs: "\<forall>v \<in> set (v0 # vs). decodes enc J v"
    by simp_all
  have scan: "scan_once n (concat (iterencode_list enc lst lvl) @ rest)
              = Scanned (JArr (map J lst)) rest"
    if "length (concat (iterencode_list enc lst lvl)) < n" for n lvl rest
  proof -
    from that obtain m where n: "n = Suc m" by (cases n) simp_all
    from that n
    have fuel: "Suc (length (concat (enc v0 (Suc lvl)))
                  + length (concat (iterencode_elems enc False (Suc lvl) vs))) < m"
      by (simp add: shape)
    from dec obtain c t where ct: "concat (enc v0 (Suc lvl)) = c # t" "\<not> is_ws c" "c \<noteq> 0x5D"
      unfolding decodes_def by blast
    note loop = JSONArray_loop [where ws = "newline_indent lvl" and acc = "[]" and rest = rest,
        OF decs is_ws_newline_indent fuel]
    from loop ct show ?thesis
      unfolding shape by (simp add: n skip_ws_newline_indent skip_ws_stop Cons)
  qed
  have "\<exists>c t. concat (iterencode_list enc lst lvl) = c # t \<and> \<not> is_ws c \<and> c \<noteq> 0x5D" for lvl
    by (simp add: shape is_ws_def)
  with scan show ?thesis
    unfolding decodes_def by blast
qed

lemma decodes_event: "decodes iterencode_event json_of_event e"
proof -
  have "decodes (iterencode_dict iterencode_str) (\<lambda>d. JObj (map (\<lambda>(k, v). (k, JStr v)) d))
          (event_items e)"
    by (rule decodes_dict) (simp_all add: decodes_str event_items_def py_def)
  then show ?thesis
    by (simp add: decodes_def iterencode_event_def json_of_event_def)
qed

lemma decodes_day_events:
  assumes "distinct (map fst m)"
  shows "decodes (iterencode_dict (iterencode_list iterencode_event)) json_of_day_events m"
proof -
  have "decodes (iterencode_list iterencode_event) (\<lambda>l. JArr (map json_of_event l)) l" for l
    by (rule decodes_list) (simp add: decodes_event)
  then have "decodes (iterencode_dict (iterencode_list iterencode_event))
               (\<lambda>d. JObj (map (\<lambda>(k, v). (k, JArr (map json_of_event v))) d)) m"
    using assms by (intro decodes_dict) simp_all
  then show ?thesis
    by (simp add: decodes_def json_of_day_events_def)
qed

lemma decodes_document:
  assumes "wf_document events"
  shows "decodes (iterencode_dict (iterencode_dict (iterencode_list iterencode_event)))
           json_of_document events"
proof -
  from assms have "\<forall>m \<in> snd ` set events.
      decodes (iterencode_dict (iterencode_list iterencode_event)) json_of_day_events m"
    by (simp add: wf_document_def decodes_day_events)
  then have "decodes (iterencode_dict (iterencode_dict (iterencode_list iterencode_event)))
               (\<lambda>d. JObj (map (\<lambda>(k, v). (k, json_of_day_events v)) d)) events"
    using assms by (intro decodes_dict) (simp_all add: wf_document_def)
  then show ?thesis
    by (simp add: decodes_def json_of_document_def)
qed

lemma iterencode_dict_brace: "\<exists>t. concat (iterencode_dict enc dct lvl) = 0x7B # t"
  by (simp add: iterencode_dict_def py_def)

lemma json_loads_iterencode:
  assumes "wf_document events"
  shows "json_loads (concat (iterencode events)) = Some (Inr (json_of_document events))"
proof -
  let ?T = "concat (iterencode events)"
  from iterencode_dict_brace obtain t where t: "?T = 0x7B # t"
    unfolding iterencode_def by blast
  have nobom: "\<not> starts_with [0xFEFF] ?T" by (simp add: t starts_with_def)
  have skip: "skip_ws ?T = ?T" by (simp add: t skip_ws_stop is_ws_def)
  have "scan_once (2 * length ?T + 2) (?T @ []) = Scanned (json_of_document events) []"
    unfolding iterencode_def
    by (rule decodesD_scan [OF decodes_document [OF assms]]) simp
  moreover have "skip_ws [] = []" by (simp add: skip_ws_def)
  ultimately show ?thesis
    by (simp add: json_loads_def nobom skip)
qed


lemma encodable_append [simp]: "encodable (a @ b) \<longleftrightarrow> encodable a \<and> encodable b"
  by (auto simp: encodable_def)

lemma encodable_Nil [simp]: "encodable []"
  by (simp add: encodable_def)

lemma encodable_Cons:
  "encodable (c # s) \<longleftrightarrow> c < 0x110000 \<and> \<not> (0xD800 \<le> c \<and> c \<le> 0xDFFF) \<and> encodable s"
  by (simp add: encodable_def)

lemma encodable_concat: "encodable (concat xs) \<longleftrightarrow> (\<forall>x \<in> set xs. encodable x)"
  by (induction xs) simp_all

lemma encodable_ascii: "\<forall>c \<in> set s. c < 0x80 \<Longrightarrow> encodable s"
  by (auto simp: encodable_def)

lemma encodable_newline_indent [simp]: "encodable (newline_indent lvl)"
  by (rule encodable_ascii) (simp add: newline_indent_def)

lemma encodable_escape_char:
  assumes "c < 0x110000" and "\<not> (0xD800 \<le> c \<and> c \<le> 0xDFFF)"
  shows "encodable (escape_char c)"
proof (cases "c < 0x20")
  case True
  then have d: "c div 16 < 2" by simp
  have m: "c mod 16 < 41" using mod_less_divisor [of 16 c] by linarith
  from True d m have "\<forall>x \<in> set (escape_char c). x < 0x80"
    by (simp add: escape_char_def py_def hex_digit_def)
  then show ?thesis by (rule encodable_ascii)
next
  case False
  with assms show ?thesis
    by (simp add: escape_char_def encodable_Cons)
qed

lemma encodable_encode_basestring:
  assumes "encodable s"
  shows "encodable (encode_basestring s)"
proof -
  have "encodable (escape_char x)" if "x \<in> set s" for x
    using that assms by (intro encodable_escape_char) (auto simp: encodable_def)
  then show ?thesis
    by (simp add: encode_basestring_def encodable_Cons encodable_concat)
qed

lemma encodable_items:
  "\<forall>(k, v) \<in> set kvs. encodable k \<and> encodable (concat (enc v lvl)) \<Longrightarrow>
   encodable (concat (iterencode_items enc first lvl kvs))"
  by (induction kvs arbitrary: first)
     (auto simp: encodable_encode_basestring encodable_Cons py_def)

lemma encodable_dict:
  "\<forall>(k, v) \<in> set dct. encodable k \<and> (\<forall>l. encodable (concat (enc v l))) \<Longrightarrow>
   encodable (concat (iterencode_dict enc dct lvl))"
  using encodable_items [of dct enc "Suc lvl" True]
  by (auto simp: iterencode_dict_def encodable_Cons py_def)

lemma encodable_elems:
  "\<forall>v \<in> set vs. encodable (concat (enc v lvl)) \<Longrightarrow>
   encodable (concat (iterencode_elems enc first lvl vs))"
  by (induction vs arbitrary: first) (auto simp: encodable_Cons py_def)

lemma encodable_list:
  "\<forall>v \<in> set lst. \<forall>l. encodable (concat (enc v l)) \<Longrightarrow>
   encodable (concat (iterencode_list enc lst lvl))"
  using encodable_elems [of lst enc "Suc lvl" True]
  by (auto simp: iterencode_list_def encodable_Cons py_def)

lemma encodable_iterencode_event:
  "encodable_event e \<Longrightarrow> encodable (concat (iterencode_event e lvl))"
  unfolding iterencode_event_def
  by (rule encodable_dict)
     (simp add: event_items_def encodable_event_def iterencode_str_def
       encodable_encode_basestring encodable_ascii py_def)

lemma encodable_iterencode:
  assumes "encodable_document events"
  shows "encodable (concat (iterencode events))"
  unfolding iterencode_def
proof (rule encodable_dict, clarify, intro conjI allI)
  fix ym m
  assume mem: "(ym, m) \<in> set events"
  with assms show "encodable ym" by (auto simp: encodable_document_def)
  fix lvl
  have days: "\<forall>(d, l) \<in> set m. encodable d \<and> (\<forall>e \<in> set l. encodable_event e)"
    using assms mem unfolding encodable_document_def by fastforce
  show "encodable (concat (iterencode_dict (iterencode_list iterencode_event) m lvl))"
  proof (rule encodable_dict, clarify, intro conjI allI)
    fix d l
    assume "(d, l) \<in> set m"
    with days show "encodable d" by auto
    fix lvl'
    from days \<open>(d, l) \<in> set m\<close> have "\<forall>e \<in> set l. encodable_event e" by auto
    then show "encodable (concat (iterencode_list iterencode_event l lvl'))"
      by (intro encodable_list) (simp add: encodable_iterencode_event)
  qed
qed

lemma utf8_encode_encodable: "encodable s \<Longrightarrow> \<exists>bs. utf8_encode s = Inr bs"
proof (induction s)
  case Nil
  then show ?case by simp
next
  case (Cons c s)
  then obtain bs where bs: "utf8_encode s = Inr bs" by (auto simp: encodable_Cons)
  from Cons.prems have "c < 0x110000" "\<not> (0xD800 \<le> c \<and> c \<le> 0xDFFF)"
    by (simp_all add: encodable_Cons)
  then have "\<exists>b. utf8_encode_cp c = Inr b"
    by (simp add: utf8_encode_cp_def)
  with bs show ?case by auto
qed

lemma save_events_ok:
  assumes "encodable_document events"
  obtains bs where "utf8_encode (concat (iterencode events)) = Inr bs"
    and "save_events events w = (w\<lparr>data_file := Some (map char_of bs)\<rparr>, None)"
proof -
  from utf8_encode_encodable [OF encodable_iterencode [OF assms]]
  obtain bs where bs: "utf8_encode (concat (iterencode events)) = Inr bs" by blast
  from write_chunks_ok [OF bs, of "[]"]
  have "save_events events w = (w\<lparr>data_file := Some (map char_of bs)\<rparr>, None)"
    by (simp add: save_events_def)
  with bs show ?thesis by (rule that)
qed

text \<open>
  C2, amended. For every document whose dicts have each key once and whose keys and event
  strings hold only code points that UTF-8 can encode, \<open>save_events\<close> raises nothing and
  \<open>load_events\<close> on the file it has written returns the same document, whatever the text:
  no code point is changed, ASCII or not.
\<close>

theorem save_load_roundtrip:
  assumes "wf_document events" and "encodable_document events"
  shows "case save_events events w of
           (w', r) \<Rightarrow> r = None \<and> load_events w' = Some (Inr (json_of_document events), w')"
proof -
  obtain bs where bs: "utf8_encode (concat (iterencode events)) = Inr bs"
    and save: "save_events events w = (w\<lparr>data_file := Some (map char_of bs)\<rparr>, None)"
    using assms(2) by (rule save_events_ok)
  have bytes: "map of_char (map char_of bs) = bs"
    by (rule of_char_char_of_bytes) (rule utf8_encode_bytes [OF bs])
  have "load_events (w\<lparr>data_file := Some (map char_of bs)\<rparr>)
        = Some (Inr (json_of_document events), w\<lparr>data_file := Some (map char_of bs)\<rparr>)"
    using bytes by (simp add: load_events_def utf8_decode_encode [OF bs]
        json_loads_iterencode [OF assms(1)] del: map_map)
  with save show ?thesis by simp
qed

subsection \<open>Concrete files\<close>

lemmas encoder_defs =
  iterencode_def iterencode_dict_def iterencode_list_def iterencode_event_def iterencode_str_def
  event_items_def encode_basestring_def escape_char_def newline_indent_def py_def
  utf8_encode_cp_def

lemmas decoder_defs =
  json_loads_def starts_with_def skip_ws_def is_ws_def scan_literal_def match_number_def
  match_integer_def match_frac_def match_exp_def is_digit_def int_of_digits_def dict_def
  scanned_cons_def low_surrogate_def BACKSLASH_def hex_value_def decoded_cons_def
  continuation_def

lemmas scan_once_num =
  scan_once.simps(2,3) [of "pred_numeral k", folded numeral_eq_Suc] for k

lemmas JSONObject_num =
  JSONObject.simps(2) [of "pred_numeral k", folded numeral_eq_Suc] for k

lemmas JSONArray_num =
  JSONArray.simps(2) [of "pred_numeral k", folded numeral_eq_Suc] for k

lemma replicate_num: "replicate (numeral k) x = x # replicate (pred_numeral k) x"
  by (simp only: numeral_eq_Suc replicate_Suc)

lemmas fuel_simps = scan_once_num JSONObject_num JSONArray_num

lemma surrogate_save:
  "save_events surrogate_doc w
   = (w\<lparr>data_file := Some (map char_of surrogate_partial)\<rparr>, Some UnicodeEncodeError)"
  by (simp add: save_events_def surrogate_doc_def surrogate_partial_def encoder_defs replicate_num)

lemma surrogate_load:
  "load_events (w\<lparr>data_file := Some (map char_of surrogate_partial)\<rparr>)
   = Some (Inr (JObj []),
           st_show (St_error MSG_CORRUPT) (w\<lparr>data_file := Some (map char_of surrogate_partial)\<rparr>))"
  by (simp add: load_events_def surrogate_partial_def decoder_defs fuel_simps)

lemma surrogate_reachable:
  "load_events (w\<lparr>data_file := Some surrogate_file\<rparr>)
   = Some (Inr (json_of_document surrogate_doc), w\<lparr>data_file := Some surrogate_file\<rparr>)"
  by (simp add: load_events_def surrogate_file_def surrogate_doc_def json_of_document_def
      json_of_day_events_def json_of_event_def event_items_def py_def decoder_defs fuel_simps)

text \<open>
  C2, as stated, fails for a document that holds a surrogate code point, such as
  \<open>json.load\<close> returns for the escape of a lone surrogate: \<open>save_events\<close> raises
  \<open>UnicodeEncodeError\<close> and leaves the file with the text written before the string, and
  \<open>load_events\<close> then reports a corrupt file and returns the empty dict.
\<close>

theorem save_load_counterexample:
  "snd (save_events surrogate_doc example_world) = Some UnicodeEncodeError
   \<and> load_events (fst (save_events surrogate_doc example_world))
     = Some (Inr (JObj []),
             st_show (St_error MSG_CORRUPT) (fst (save_events surrogate_doc example_world)))
   \<and> json_of_document surrogate_doc \<noteq> JObj []"
  by (simp add: surrogate_save surrogate_load)
     (simp add: json_of_document_def surrogate_doc_def)

text \<open>
  C6 at a file that is not well-formed UTF-8, here the opening quote of a string and the first
  two of the three bytes of a Japanese character, as a write cut short leaves them:
  \<open>load_events\<close> raises \<open>UnicodeDecodeError\<close>, which its \<open>except\<close> clause does not
  catch; it returns no document and shows no error box.
\<close>

theorem load_truncated_file_raises:
  "load_events (example_world\<lparr>data_file := Some truncated_file\<rparr>)
   = Some (Inl UnicodeDecodeError, example_world\<lparr>data_file := Some truncated_file\<rparr>)"
  by (simp add: load_events_def truncated_file_def decoder_defs)

text \<open>
  A file that is well-formed UTF-8 and that \<open>json.load\<close> refuses gives the empty dict and
  the error box; the file is left as it is.
\<close>

lemma load_events_malformed:
  assumes "data_file w = Some content" and "utf8_decode (map of_char content) = Inr s"
    and "json_loads s = Some (Inl JSONDecodeError)"
  shows "load_events w = Some (Inr (JObj []), w\<lparr>shown := shown w @ [St_error MSG_CORRUPT]\<rparr>)"
  using assms by (simp add: load_events_def st_show_def)

lemma load_events_malformed_example:
  "load_events (example_world\<lparr>data_file := Some ''{''\<rparr>)
   = Some (Inr (JObj []),
           example_world\<lparr>data_file := Some ''{'', shown := [St_error MSG_CORRUPT]\<rparr>)"
  by (simp add: load_events_def st_show_def example_world_def decoder_defs fuel_simps)

text \<open>
  C8. When the file does not exist, \<open>load_events\<close> returns the empty dict, raises nothing,
  shows nothing and leaves the world as it is.
\<close>

theorem load_missing_file:
  "data_file w = None \<Longrightarrow> load_events w = Some (Inr (JObj []), w)"
  by (simp add: load_events_def)

theorem load_missing_file_witness:
  "data_file example_world = None \<and> load_events example_world = Some (Inr (JObj []), example_world)"
proof -
  have h: "data_file example_world = None" by (simp add: example_world_def)
  from load_missing_file [OF h] h show ?thesis by simp
qed

lemma example_doc_ja_wf: "wf_document example_doc_ja"
  by (simp add: wf_document_def example_doc_ja_def)

lemma example_doc_ja_encodable: "encodable_document example_doc_ja"
  by (simp add: encodable_document_def encodable_event_def encodable_def example_doc_ja_def py_def)

theorem save_load_roundtrip_witness:
  "wf_document example_doc_ja \<and> encodable_document example_doc_ja
   \<and> snd (save_events example_doc_ja example_world) = None
   \<and> load_events (fst (save_events example_doc_ja example_world))
     = Some (Inr (json_of_document example_doc_ja), fst (save_events example_doc_ja example_world))"
  using save_load_roundtrip [OF example_doc_ja_wf example_doc_ja_encodable, of example_world]
    example_doc_ja_wf example_doc_ja_encodable
  by (auto split: prod.splits)

lemma json_of_event_inject: "json_of_event a = json_of_event b \<Longrightarrow> a = b"
  by (cases a, cases b) (simp add: json_of_event_def event_items_def)

lemma map_pair_inject:
  assumes "\<And>a b. J a = J b \<Longrightarrow> a = b"
  shows "map (\<lambda>(k, v). (k, J v)) xs = map (\<lambda>(k, v). (k, J v)) ys \<Longrightarrow> xs = ys"
proof (induction xs arbitrary: ys)
  case Nil
  then show ?case by simp
next
  case (Cons x xs)
  then obtain y ys' where ys: "ys = y # ys'" by (cases ys) auto
  with Cons.prems have "fst x = fst y" "J (snd x) = J (snd y)"
    and "map (\<lambda>(k, v). (k, J v)) xs = map (\<lambda>(k, v). (k, J v)) ys'"
    by (auto split: prod.splits)
  with assms Cons.IH ys show ?case by (auto intro: prod_eqI)
qed

lemma map_json_of_event_inject: "map json_of_event xs = map json_of_event ys \<Longrightarrow> xs = ys"
proof (induction xs arbitrary: ys)
  case Nil
  then show ?case by simp
next
  case (Cons x xs)
  then show ?case by (cases ys) (auto dest: json_of_event_inject)
qed

lemma json_of_day_events_inject: "json_of_day_events a = json_of_day_events b \<Longrightarrow> a = b"
  unfolding json_of_day_events_def
  by (rule map_pair_inject [where J = "\<lambda>l. JArr (map json_of_event l)"])
     (auto dest: map_json_of_event_inject)

lemma json_of_document_inject: "json_of_document a = json_of_document b \<Longrightarrow> a = b"
  unfolding json_of_document_def
  by (rule map_pair_inject [where J = json_of_day_events])
     (auto dest: json_of_day_events_inject)

end
